(* ===== verification/Prelude.thy ===== *)
theory Prelude
  imports Main "HOL-Library.Finite_Map" "HOL-Library.Word"
begin

text \<open>
  The vocabulary every component of the development shares: how a Go function returns (a value,
  an error, or a run-time panic), Go's nil-able string maps, and the lemmas about them that the
  component proofs use through the simplifier.
\<close>

section \<open>Collections of facts\<close>

named_theorems confinement \<open>requests and calls that stay within the bounds of one service\<close>

named_theorems goroutines \<open>what the goroutines of the running program do\<close>


section \<open>How a Go function returns\<close>

text \<open>
  An error answered by the API server is either the status \<open>NotFound\<close> (what
  \<^verbatim>\<open>apierrors.IsNotFound\<close> tests) or some other failure.
  The value \<open>ErrMsg\<close> is an error made from a text, \<open>WithMessage\<close> one wrapped by
  \<^verbatim>\<open>errors.Wrap\<close>.
\<close>

datatype api_error = NotFound | Failure string

datatype goerror =
    ApiErr api_error
  | ErrMsg string
  | WithMessage string goerror

text \<open>
  A call returns normally, returns a non-nil \<^verbatim>\<open>error\<close>, or panics (an index out of range, a
  nil dereference, a write to a nil map).
\<close>

datatype 'a outcome = Ok 'a | Err goerror | Panic string

type_synonym int32 = "32 word"

text \<open>\<^verbatim>\<open>errors.Wrap(err, msg)\<close> of \<^verbatim>\<open>github.com/pkg/errors\<close>: a nil error stays nil.\<close>

definition Wrap :: "goerror option \<Rightarrow> string \<Rightarrow> goerror option" where
  "Wrap err msg = (case err of None \<Rightarrow> None | Some e \<Rightarrow> Some (WithMessage msg e))"

text \<open>\<^verbatim>\<open>return err\<close> in a function whose only result is an \<^verbatim>\<open>error\<close>.\<close>

definition return_error :: "goerror option \<Rightarrow> unit outcome" where
  "return_error err = (case err of None \<Rightarrow> Ok () | Some e \<Rightarrow> Err e)"

lemma Wrap_simps [simp]:
  "Wrap None msg = None"
  "Wrap (Some e) msg = Some (WithMessage msg e)"
  by (simp_all add: Wrap_def)

lemma return_error_simps [simp]:
  "return_error None = Ok ()"
  "return_error (Some e) = Err e"
  by (simp_all add: return_error_def)

fun outcome_bind :: "'a outcome \<Rightarrow> ('a \<Rightarrow> 'b outcome) \<Rightarrow> 'b outcome" where
  "outcome_bind (Ok x) f = f x"
| "outcome_bind (Err e) f = Err e"
| "outcome_bind (Panic p) f = Panic p"

lemma outcome_bind_eq_Ok:
  "outcome_bind m f = Ok y \<longleftrightarrow> (\<exists>x. m = Ok x \<and> f x = Ok y)"
  by (cases m) auto

lemma outcome_bind_eq_Panic:
  "outcome_bind m f = Panic p \<longleftrightarrow> m = Panic p \<or> (\<exists>x. m = Ok x \<and> f x = Panic p)"
  by (cases m) auto

lemma outcome_bind_eq_Err:
  "outcome_bind m f = Err e \<longleftrightarrow> m = Err e \<or> (\<exists>x. m = Ok x \<and> f x = Err e)"
  by (cases m) auto

lemmas outcome_bind_iffs = outcome_bind_eq_Ok outcome_bind_eq_Panic outcome_bind_eq_Err


section \<open>Go maps\<close>

text \<open>
  A \<^verbatim>\<open>map[string]string\<close> is nil (\<open>None\<close>) or a finite map. Reading a missing key, also of a
  nil map, gives the empty string; deleting from a nil map does nothing; assigning to an entry of
  a nil map panics, which \<open>mput\<close> answers with \<open>None\<close>.
\<close>

type_synonym gomap = "(string, string) fmap option"

definition mget :: "gomap \<Rightarrow> string \<Rightarrow> string" where
  "mget m k = (case m of None \<Rightarrow> '''' | Some f \<Rightarrow> (case fmlookup f k of None \<Rightarrow> '''' | Some v \<Rightarrow> v))"

definition mput :: "gomap \<Rightarrow> string \<Rightarrow> string \<Rightarrow> gomap option" where
  "mput m k v = (case m of None \<Rightarrow> None | Some f \<Rightarrow> Some (Some (fmupd k v f)))"

definition mdelete :: "gomap \<Rightarrow> string \<Rightarrow> gomap" where
  "mdelete m k = map_option (fmdrop k) m"

text \<open>\<^verbatim>\<open>if m == nil { m = map[string]string{} }\<close>\<close>

definition mmake :: "gomap \<Rightarrow> (string, string) fmap" where
  "mmake m = (case m of None \<Rightarrow> fmempty | Some f \<Rightarrow> f)"

text \<open>Reading from a map known not to be nil.\<close>

abbreviation fget :: "(string, string) fmap \<Rightarrow> string \<Rightarrow> string" where
  "fget f k \<equiv> mget (Some f) k"

lemma mget_None [simp]: "mget None k = ''''"
  by (simp add: mget_def)

lemma fget_fmempty [simp]: "fget fmempty k = ''''"
  by (simp add: mget_def)

lemma fget_fmupd [simp]: "fget (fmupd k v f) k' = (if k = k' then v else fget f k')"
  by (simp add: mget_def)

lemma fget_fmdrop [simp]: "fget (fmdrop k f) k' = (if k = k' then '''' else fget f k')"
  by (simp add: mget_def)

lemma mput_Some [simp]: "mput (Some f) k v = Some (Some (fmupd k v f))"
  by (simp add: mput_def)

lemma mput_None_iff [simp]: "mput m k v = None \<longleftrightarrow> m = None"
  by (simp add: mput_def split: option.splits)

lemma mdelete_simps [simp]:
  "mdelete None k = None"
  "mdelete (Some f) k = Some (fmdrop k f)"
  by (simp_all add: mdelete_def)

lemma mget_mdelete [simp]: "mget (mdelete m k) k' = (if k = k' then '''' else mget m k')"
  by (cases m) simp_all

lemma mmake_simps [simp]: "mmake None = fmempty" "mmake (Some f) = f"
  by (simp_all add: mmake_def)

lemma fget_mmake [simp]: "fget (mmake m) k = mget m k"
  by (cases m) simp_all

lemma fmdrop_fmupd_absent: "k \<noteq> k' \<Longrightarrow> fmdrop k (fmupd k' v f) = fmupd k' v (fmdrop k f)"
  by (rule fmap_ext) simp

lemma fmdrop_absent: "fmlookup f k = None \<Longrightarrow> fmdrop k f = f"
  by (rule fmap_ext) auto

end
