(* ===== verification/GoStrings.thy ===== *)
theory GoStrings
  imports Prelude
begin

text \<open>
  The functions of Go's standard library the program calls on strings: \<^verbatim>\<open>strings\<close>,
  \<^verbatim>\<open>strconv\<close>, the part of \<^verbatim>\<open>fmt.Sprintf\<close> that the URL format uses,
  \<^verbatim>\<open>net.SplitHostPort\<close> and \<^verbatim>\<open>net.JoinHostPort\<close>, as of Go 1.11 (the release the build
  names). A Go string is a sequence of bytes, which is what \<^typ>\<open>string\<close> is here.
\<close>

section \<open>Prefixes and suffixes\<close>

definition HasPrefix :: "string \<Rightarrow> string \<Rightarrow> bool" where
  "HasPrefix s p \<longleftrightarrow> take (length p) s = p"

definition HasSuffix :: "string \<Rightarrow> string \<Rightarrow> bool" where
  "HasSuffix s p \<longleftrightarrow> length p \<le> length s \<and> drop (length s - length p) s = p"

definition TrimPrefix :: "string \<Rightarrow> string \<Rightarrow> string" where
  "TrimPrefix s p = (if HasPrefix s p then drop (length p) s else s)"

definition TrimSuffix :: "string \<Rightarrow> string \<Rightarrow> string" where
  "TrimSuffix s p = (if HasSuffix s p then take (length s - length p) s else s)"

lemma HasPrefix_iff: "HasPrefix s p \<longleftrightarrow> (\<exists>r. s = p @ r)"
  unfolding HasPrefix_def by (metis append_eq_conv_conj append_take_drop_id)

lemma HasSuffix_iff: "HasSuffix s p \<longleftrightarrow> (\<exists>r. s = r @ p)"
proof
  assume "HasSuffix s p"
  then have "s = take (length s - length p) s @ p"
    by (metis HasSuffix_def append_take_drop_id)
  then show "\<exists>r. s = r @ p" ..
qed (auto simp: HasSuffix_def)

lemma HasSuffix_rev: "HasSuffix s p \<longleftrightarrow> HasPrefix (rev s) (rev p)"
  unfolding HasSuffix_iff HasPrefix_iff by (metis rev_append rev_rev_ident)

lemma HasPrefix_append [simp]: "HasPrefix (p @ r) p"
  by (auto simp: HasPrefix_iff)

lemma HasPrefix_Cons [simp]: "HasPrefix (c # s) (d # p) \<longleftrightarrow> c = d \<and> HasPrefix s p"
  by (auto simp: HasPrefix_def)

lemma HasPrefix_Nil [simp]: "HasPrefix s []" "HasPrefix [] p \<longleftrightarrow> p = []"
  by (auto simp: HasPrefix_def)

lemma HasSuffix_append [simp]: "HasSuffix (r @ p) p"
  by (auto simp: HasSuffix_iff)

lemma HasSuffix_single: "HasSuffix s [c] \<longleftrightarrow> s \<noteq> [] \<and> last s = c"
  unfolding HasSuffix_iff by (metis append_butlast_last_id append_is_Nil_conv last_snoc list.distinct(1))

lemma TrimPrefix_append [simp]: "TrimPrefix (p @ r) p = r"
  by (simp add: TrimPrefix_def)

lemma TrimSuffix_append [simp]: "TrimSuffix (r @ p) p = r"
  by (simp add: TrimSuffix_def)

lemma TrimPrefix_id [simp]: "\<not> HasPrefix s p \<Longrightarrow> TrimPrefix s p = s"
  by (simp add: TrimPrefix_def)

lemma TrimSuffix_id [simp]: "\<not> HasSuffix s p \<Longrightarrow> TrimSuffix s p = s"
  by (simp add: TrimSuffix_def)

lemma TrimSuffix_single: "TrimSuffix s [c] = (if s \<noteq> [] \<and> last s = c then butlast s else s)"
  by (simp add: TrimSuffix_def HasSuffix_single butlast_conv_take)

lemma TrimPrefix_single: "TrimPrefix s [c] = (case s of [] \<Rightarrow> [] | d # r \<Rightarrow> if c = d then r else s)"
  by (cases s) (auto simp: TrimPrefix_def)


section \<open>Splitting and joining\<close>

text \<open>
  Every separator in the program is one byte. \<^verbatim>\<open>strings.Split(s, sep)\<close> never returns an
  empty slice; \<^verbatim>\<open>strings.SplitN(s, sep, 2)\<close> cuts at the first separator only.
\<close>

fun Split :: "string \<Rightarrow> char \<Rightarrow> string list" where
  "Split [] c = [[]]"
| "Split (x # xs) c =
     (if x = c then [] # Split xs c
      else case Split xs c of [] \<Rightarrow> [[x]] | p # ps \<Rightarrow> (x # p) # ps)"

fun SplitN2 :: "string \<Rightarrow> char \<Rightarrow> string list" where
  "SplitN2 [] c = [[]]"
| "SplitN2 (x # xs) c =
     (if x = c then [[], xs]
      else case SplitN2 xs c of [] \<Rightarrow> [[x]] | p # ps \<Rightarrow> (x # p) # ps)"

fun Join :: "string list \<Rightarrow> string \<Rightarrow> string" where
  "Join [] sep = []"
| "Join [s] sep = s"
| "Join (s # t # ts) sep = s @ sep @ Join (t # ts) sep"

lemma Split_not_Nil [simp]: "Split s c \<noteq> []"
  by (induction s) (auto split: list.splits)

lemma Join_Split: "Join (Split s c) [c] = s"
proof (induction s)
  case (Cons x xs)
  obtain p ps where "Split xs c = p # ps" by (cases "Split xs c") auto
  with Cons show ?case by (cases ps) auto
qed simp

lemma Split_no_sep: "\<forall>p \<in> set (Split s c). c \<notin> set p"
proof (induction s)
  case (Cons x xs)
  obtain p ps where "Split xs c = p # ps" by (cases "Split xs c") auto
  with Cons show ?case by auto
qed simp

lemma Split_fresh: "c \<notin> set s \<Longrightarrow> Split s c = [s]"
  by (induction s) auto

lemma Split_append_sep: "c \<notin> set s \<Longrightarrow> Split (s @ c # t) c = s # Split t c"
  by (induction s) auto

lemma Split_Join:
  assumes "ps \<noteq> []" "\<forall>p \<in> set ps. c \<notin> set p"
  shows "Split (Join ps [c]) c = ps"
  using assms by (induction ps "[c]" rule: Join.induct) (auto simp: Split_fresh Split_append_sep)

lemma SplitN2_not_Nil [simp]: "SplitN2 s c \<noteq> []"
  by (induction s) (auto split: list.splits)

lemma SplitN2_fresh: "c \<notin> set s \<Longrightarrow> SplitN2 s c = [s]"
  by (induction s) auto

lemma SplitN2_sep: "c \<notin> set s \<Longrightarrow> SplitN2 (s @ c # t) c = [s, t]"
  by (induction s) auto

lemma length_SplitN2: "length (SplitN2 s c) = (if c \<in> set s then 2 else 1)"
proof (cases "c \<in> set s")
  case True
  then obtain p q where "s = p @ c # q" "c \<notin> set p" by (meson split_list_first)
  with True show ?thesis by (simp add: SplitN2_sep)
qed (simp add: SplitN2_fresh)


section \<open>Searching and replacing\<close>

text \<open>\<^verbatim>\<open>strings.Replace(s, old, new, 1)\<close>: the first occurrence only.\<close>

fun Replace1 :: "string \<Rightarrow> string \<Rightarrow> string \<Rightarrow> string" where
  "Replace1 [] old new = (if old = [] then new else [])"
| "Replace1 (x # xs) old new =
     (if HasPrefix (x # xs) old then new @ drop (length old) (x # xs)
      else x # Replace1 xs old new)"

fun Contains :: "string \<Rightarrow> string \<Rightarrow> bool" where
  "Contains [] sub = (sub = [])"
| "Contains (x # xs) sub = (HasPrefix (x # xs) sub \<or> Contains xs sub)"

text \<open>\<^verbatim>\<open>strings.LastIndex\<close> of a one-byte pattern; \<open>None\<close> is Go's \<^verbatim>\<open>-1\<close>.\<close>

fun LastIndex :: "string \<Rightarrow> char \<Rightarrow> nat option" where
  "LastIndex [] c = None"
| "LastIndex (x # xs) c =
     (case LastIndex xs c of Some i \<Rightarrow> Some (Suc i) | None \<Rightarrow> if x = c then Some 0 else None)"

lemma Contains_iff: "Contains s sub \<longleftrightarrow> (\<exists>p q. s = p @ sub @ q)"
proof (induction s)
  case (Cons x xs)
  show ?case
  proof
    assume "Contains (x # xs) sub"
    then consider "HasPrefix (x # xs) sub" | "Contains xs sub" by auto
    then show "\<exists>p q. x # xs = p @ sub @ q"
      using Cons.IH by cases (auto simp: HasPrefix_iff intro: exI [of _ "[]"], metis append_Cons)
  next
    assume "\<exists>p q. x # xs = p @ sub @ q"
    then show "Contains (x # xs) sub"
      using Cons.IH by (fastforce simp: HasPrefix_iff Cons_eq_append_conv)
  qed
qed auto

lemma Replace1_prefix: "old \<noteq> [] \<Longrightarrow> Replace1 (old @ s) old new = new @ s"
  by (cases old) (auto simp: HasPrefix_def)

lemma Replace1_absent: "old \<noteq> [] \<Longrightarrow> \<not> Contains s old \<Longrightarrow> Replace1 s old new = s"
  by (induction s) auto


section \<open>Case and white space\<close>

text \<open>
  \<^verbatim>\<open>strings.ToUpper\<close> and \<^verbatim>\<open>strings.ToLower\<close> map runes. The results are only compared with,
  or scanned for, ASCII bytes, so the model maps the ASCII letters and the non-ASCII runes whose
  image is an ASCII letter (dotless i, long s; capital I with dot, Kelvin sign), each written as its
  UTF-8 bytes; every other non-ASCII byte sequence is left as it is.
\<close>

definition upper_byte :: "char \<Rightarrow> char" where
  "upper_byte c = (let n = of_char c :: nat in if 97 \<le> n \<and> n \<le> 122 then char_of (n - 32) else c)"

definition lower_byte :: "char \<Rightarrow> char" where
  "lower_byte c = (let n = of_char c :: nat in if 65 \<le> n \<and> n \<le> 90 then char_of (n + 32) else c)"

fun ToUpper :: "string \<Rightarrow> string" where
  "ToUpper (a # b # s) =
     (if a = CHR 0xC4 \<and> b = CHR 0xB1 then CHR ''I'' # ToUpper s
      else if a = CHR 0xC5 \<and> b = CHR 0xBF then CHR ''S'' # ToUpper s
      else upper_byte a # ToUpper (b # s))"
| "ToUpper [a] = [upper_byte a]"
| "ToUpper [] = []"

fun ToLower :: "string \<Rightarrow> string" where
  "ToLower (a # b # s) =
     (if a = CHR 0xC4 \<and> b = CHR 0xB0 then CHR ''i'' # ToLower s
      else if a = CHR 0xE2 \<and> HasPrefix (b # s) [CHR 0x84, CHR 0xAA]
        then CHR ''k'' # ToLower (drop 2 (b # s))
      else lower_byte a # ToLower (b # s))"
| "ToLower [a] = [lower_byte a]"
| "ToLower [] = []"

text \<open>\<^verbatim>\<open>strings.TrimSpace\<close>: the runes of \<^verbatim>\<open>unicode.IsSpace\<close>, as UTF-8 bytes.\<close>

definition unicode_spaces :: "string list" where
  "unicode_spaces =
     [[CHR 0x09], [CHR 0x0A], [CHR 0x0B], [CHR 0x0C], [CHR 0x0D], [CHR 0x20],
      [CHR 0xC2, CHR 0x85], [CHR 0xC2, CHR 0xA0], [CHR 0xE1, CHR 0x9A, CHR 0x80],
      [CHR 0xE2, CHR 0x80, CHR 0x80], [CHR 0xE2, CHR 0x80, CHR 0x81],
      [CHR 0xE2, CHR 0x80, CHR 0x82], [CHR 0xE2, CHR 0x80, CHR 0x83],
      [CHR 0xE2, CHR 0x80, CHR 0x84], [CHR 0xE2, CHR 0x80, CHR 0x85],
      [CHR 0xE2, CHR 0x80, CHR 0x86], [CHR 0xE2, CHR 0x80, CHR 0x87],
      [CHR 0xE2, CHR 0x80, CHR 0x88], [CHR 0xE2, CHR 0x80, CHR 0x89],
      [CHR 0xE2, CHR 0x80, CHR 0x8A], [CHR 0xE2, CHR 0x80, CHR 0xA8],
      [CHR 0xE2, CHR 0x80, CHR 0xA9], [CHR 0xE2, CHR 0x80, CHR 0xAF],
      [CHR 0xE2, CHR 0x81, CHR 0x9F], [CHR 0xE3, CHR 0x80, CHR 0x80]]"

function trim_left :: "string list \<Rightarrow> string \<Rightarrow> string" where
  "trim_left ws s =
     (case find (\<lambda>w. w \<noteq> [] \<and> HasPrefix s w) ws of
        None \<Rightarrow> s
      | Some w \<Rightarrow> trim_left ws (drop (length w) s))"
  by pat_completeness auto
termination
proof (relation "measure (\<lambda>(ws, s). length s)")
  fix ws s w
  assume "find (\<lambda>w. w \<noteq> [] \<and> HasPrefix s w) ws = Some w"
  then have "w \<noteq> []" "HasPrefix s w" by (auto simp: find_Some_iff)
  then show "((ws, drop (length w) s), ws, s) \<in> measure (\<lambda>(ws, s). length s)"
    by (auto simp: HasPrefix_iff)
qed simp

declare trim_left.simps [simp del]

definition TrimSpace :: "string \<Rightarrow> string" where
  "TrimSpace s =
     rev (trim_left (map rev unicode_spaces) (rev (trim_left unicode_spaces s)))"

lemma trim_left_idem: "trim_left ws (trim_left ws s) = trim_left ws s"
proof (induction ws s rule: trim_left.induct)
  case (1 ws s)
  show ?case
  proof (cases "find (\<lambda>w. w \<noteq> [] \<and> HasPrefix s w) ws")
    case None
    then show ?thesis by (simp add: trim_left.simps [of ws s])
  next
    case (Some w)
    with 1 show ?thesis by (simp add: trim_left.simps [of ws s])
  qed
qed


section \<open>Numbers as text\<close>

text \<open>
  Go's \<^verbatim>\<open>int\<close> is 64 bits wide on the build's target. \<^verbatim>\<open>strconv.Atoi\<close> accepts an optional
  sign and decimal digits and refuses a value outside that range; \<open>None\<close> is its error.
\<close>

fun digits_of :: "nat \<Rightarrow> string" where
  "digits_of n =
     (if n < 10 then [char_of (48 + n)] else digits_of (n div 10) @ [char_of (48 + n mod 10)])"

declare digits_of.simps [simp del]

lemma char_of_digit [simp]:
  "char_of (48 :: nat) = CHR ''0''" "char_of (49 :: nat) = CHR ''1''" "char_of (50 :: nat) = CHR ''2''"
  "char_of (51 :: nat) = CHR ''3''" "char_of (52 :: nat) = CHR ''4''" "char_of (53 :: nat) = CHR ''5''"
  "char_of (54 :: nat) = CHR ''6''" "char_of (55 :: nat) = CHR ''7''" "char_of (56 :: nat) = CHR ''8''"
  "char_of (57 :: nat) = CHR ''9''"
  by (simp_all add: char_of_def bit_Suc_0_iff)

definition Itoa :: "int \<Rightarrow> string" where
  "Itoa i = (if i < 0 then CHR ''-'' # digits_of (nat (- i)) else digits_of (nat i))"

definition is_digit :: "char \<Rightarrow> bool" where
  "is_digit c \<longleftrightarrow> 48 \<le> (of_char c :: nat) \<and> (of_char c :: nat) \<le> 57"

fun digits_value :: "nat \<Rightarrow> string \<Rightarrow> nat option" where
  "digits_value acc [] = Some acc"
| "digits_value acc (c # cs) =
     (if is_digit c then digits_value (10 * acc + (of_char c - 48)) cs else None)"

definition Atoi :: "string \<Rightarrow> int option" where
  "Atoi s =
     (let (neg, ds) = (case s of c # cs \<Rightarrow> if c = CHR ''-'' then (True, cs)
                                     else if c = CHR ''+'' then (False, cs) else (False, s)
                               | [] \<Rightarrow> (False, []))
      in if ds = [] then None
         else case digits_value 0 ds of
                None \<Rightarrow> None
              | Some n \<Rightarrow>
                  if neg then (if n \<le> 2 ^ 63 then Some (- int n) else None)
                  else (if n < 2 ^ 63 then Some (int n) else None))"

lemma digits_of_not_Nil [simp]: "digits_of n \<noteq> []"
  by (subst digits_of.simps) simp

lemma digits_of_is_digit: "\<forall>c \<in> set (digits_of n). is_digit c"
proof (induction n rule: digits_of.induct)
  case (1 n)
  then show ?case
    by (subst digits_of.simps) (auto simp: is_digit_def)
qed

lemma digits_value_append:
  "digits_value acc (xs @ ys) =
     (case digits_value acc xs of None \<Rightarrow> None | Some a \<Rightarrow> digits_value a ys)"
  by (induction xs arbitrary: acc) auto

lemma digits_value_digits_of: "digits_value 0 (digits_of n) = Some n"
proof (induction n rule: digits_of.induct)
  case (1 n)
  show ?case
  proof (cases "n < 10")
    case True
    then show ?thesis by (subst digits_of.simps) (simp add: is_digit_def)
  next
    case False
    with 1 show ?thesis
      by (subst digits_of.simps) (simp add: digits_value_append is_digit_def)
  qed
qed

lemma hd_digits_of: "hd (digits_of n) \<noteq> CHR ''-''" "hd (digits_of n) \<noteq> CHR ''+''"
proof -
  have "is_digit (hd (digits_of n))"
    using digits_of_is_digit [of n] hd_in_set [OF digits_of_not_Nil [of n]] by blast
  then show "hd (digits_of n) \<noteq> CHR ''-''" "hd (digits_of n) \<noteq> CHR ''+''"
    by (auto simp: is_digit_def)
qed

lemma Atoi_Itoa:
  assumes "- (2 ^ 63) \<le> i" "i < 2 ^ 63"
  shows "Atoi (Itoa i) = Some i"
proof (cases "i < 0")
  case True
  with assms show ?thesis by (simp add: Atoi_def Itoa_def digits_value_digits_of)
next
  case False
  obtain c cs where "digits_of (nat i) = c # cs" by (cases "digits_of (nat i)") auto
  with False assms hd_digits_of [of "nat i"] digits_value_digits_of [of "nat i"] show ?thesis
    by (simp add: Atoi_def Itoa_def)
qed

lemma Itoa_not_Nil [simp]: "Itoa i \<noteq> []"
  by (simp add: Itoa_def)

lemma sint_int32_bounds: "- (2 ^ 31) \<le> sint (p :: int32)" "sint (p :: int32) < 2 ^ 31"
  using sint_range_size [of p] by (auto simp: word_size)

lemma Atoi_Itoa_int32 [simp]: "Atoi (Itoa (sint (p :: int32))) = Some (sint p)"
  using sint_int32_bounds [of p] by (intro Atoi_Itoa) simp_all


section \<open>Host and port\<close>

text \<open>
  \<^verbatim>\<open>net.SplitHostPort\<close>; \<open>None\<close> is any of its errors. The port starts after the last
  colon; a host in brackets must end just before it.
\<close>

definition byteIndex :: "string \<Rightarrow> char \<Rightarrow> nat option" where
  "byteIndex s c = (if c \<in> set s then Some (length (takeWhile (\<lambda>x. x \<noteq> c) s)) else None)"

definition SplitHostPort :: "string \<Rightarrow> (string \<times> string) option" where
  "SplitHostPort hp =
     (case LastIndex hp CHR '':'' of
        None \<Rightarrow> None
      | Some i \<Rightarrow>
          if hd hp = CHR ''['' then
            (case byteIndex hp CHR '']'' of
               None \<Rightarrow> None
             | Some e \<Rightarrow>
                 if Suc e \<noteq> i then None
                 else if CHR ''['' \<in> set (drop 1 hp) \<or> CHR '']'' \<in> set (drop (Suc e) hp) then None
                 else Some (drop 1 (take e hp), drop (Suc i) hp))
          else if CHR '':'' \<in> set (take i hp) then None
          else if CHR ''['' \<in> set hp \<or> CHR '']'' \<in> set hp then None
          else Some (take i hp, drop (Suc i) hp))"

text \<open>\<^verbatim>\<open>net.JoinHostPort\<close>: a host with a colon is a literal IPv6 address.\<close>

definition JoinHostPort :: "string \<Rightarrow> string \<Rightarrow> string" where
  "JoinHostPort host port =
     (if CHR '':'' \<in> set host then ''['' @ host @ '']:'' @ port else host @ '':'' @ port)"

lemma LastIndex_fresh: "LastIndex s c = None \<longleftrightarrow> c \<notin> set s"
  by (induction s) (auto split: option.splits)

lemma LastIndex_last: "c \<notin> set t \<Longrightarrow> LastIndex (s @ c # t) c = Some (length s)"
proof (induction s)
  case Nil
  then show ?case by (simp add: LastIndex_fresh [THEN iffD2])
qed simp

lemma takeWhile_fresh: "c \<notin> set s \<Longrightarrow> takeWhile (\<lambda>x. x \<noteq> c) (s @ c # t) = s"
  by (induction s) auto

lemma hd_append_not: "c \<notin> set s \<Longrightarrow> d \<noteq> c \<Longrightarrow> hd (s @ d # t) \<noteq> c"
  by (cases s) auto

lemma SplitHostPort_JoinHostPort:
  assumes "CHR ''['' \<notin> set host" "CHR '']'' \<notin> set host"
    "set port \<inter> set '':[]'' = {}"
  shows "SplitHostPort (JoinHostPort host port) = Some (host, port)"
proof (cases "CHR '':'' \<in> set host")
  case True
  let ?h = "CHR ''['' # host @ [CHR '']'']"
  have j: "JoinHostPort host port = ?h @ CHR '':'' # port"
    using True by (simp add: JoinHostPort_def)
  have "LastIndex (?h @ CHR '':'' # port) CHR '':'' = Some (length ?h)"
    using assms(3) by (intro LastIndex_last) auto
  moreover have "byteIndex (?h @ CHR '':'' # port) CHR '']'' = Some (Suc (length host))"
    using takeWhile_fresh [of "CHR '']''" "CHR ''['' # host" "CHR '':'' # port"] assms(2)
    by (simp add: byteIndex_def)
  ultimately show ?thesis
    using assms unfolding j SplitHostPort_def by (auto simp: hd_append)
next
  case False
  then have j: "JoinHostPort host port = host @ CHR '':'' # port"
    by (simp add: JoinHostPort_def)
  have "LastIndex (host @ CHR '':'' # port) CHR '':'' = Some (length host)"
    using assms(3) by (intro LastIndex_last) auto
  moreover have "hd (host @ CHR '':'' # port) \<noteq> CHR ''[''"
    using assms(1) by (intro hd_append_not) auto
  ultimately show ?thesis
    using assms False unfolding j SplitHostPort_def by auto
qed


section \<open>Formatting\<close>

text \<open>
  \<^verbatim>\<open>fmt.Sprintf(format, args...)\<close> with string arguments. The scanner covers literal bytes,
  \<^verbatim>\<open>%%\<close> and the indexed verb \<^verbatim>\<open>%[n]s\<close> for an existing argument, and answers \<open>None\<close>
  at any other directive; what Go prints for those is the parameter \<open>rest\<close>. A format with no
  indexed verb has not reordered its arguments, so Go appends the unused ones in an
  \<^verbatim>\<open>%!(EXTRA ...)\<close> note.
\<close>

fun sprintf_scan :: "string \<Rightarrow> string list \<Rightarrow> (string \<times> bool) option" where
  "sprintf_scan [] args = Some ([], False)"
| "sprintf_scan (c # cs) args =
     (if c \<noteq> CHR ''%'' then map_option (\<lambda>(out, reordered). (c # out, reordered)) (sprintf_scan cs args)
      else case cs of
          CHR ''%'' # cs' \<Rightarrow> map_option (\<lambda>(out, reordered). (CHR ''%'' # out, reordered)) (sprintf_scan cs' args)
        | CHR ''['' # d # CHR '']'' # CHR ''s'' # cs' \<Rightarrow>
            (let n = (of_char d :: nat) - 48 in
             if is_digit d \<and> 1 \<le> n \<and> n \<le> length args
             then map_option (\<lambda>(out, reordered). (args ! (n - 1) @ out, True)) (sprintf_scan cs' args)
             else None)
        | _ \<Rightarrow> None)"

definition Sprintf :: "(string \<Rightarrow> string list \<Rightarrow> string) \<Rightarrow> string \<Rightarrow> string list \<Rightarrow> string" where
  "Sprintf rest fmt args =
     (case sprintf_scan fmt args of
        None \<Rightarrow> rest fmt args
      | Some (out, reordered) \<Rightarrow>
          if reordered \<or> args = [] then out
          else out @ ''%!(EXTRA '' @ Join (map (\<lambda>a. ''string='' @ a) args) '', '' @ '')'')"

lemma sprintf_scan_literal:
  "CHR ''%'' \<notin> set lit \<Longrightarrow>
   sprintf_scan (lit @ fmt) args = map_option (\<lambda>(out, r). (lit @ out, r)) (sprintf_scan fmt args)"
  by (induction lit; cases "sprintf_scan fmt args") auto

end
