(* ===== verification/KubeApi.thy ===== *)
theory KubeApi
  imports GoStrings
begin

text \<open>
  The Kubernetes and OpenShift objects the program reads and writes, the clients it is given, and
  what it relies on of the API server behind them. The server is not part of the program: a
  client is a record of functions over an unknown server state \<open>'w\<close>, an argument of every
  definition that calls it. What the server documents of its operations are the laws of the locale
  \<open>kube_server\<close>, stated over an abstract view of the state, and a reference server over that
  view satisfies them.
\<close>

section \<open>Objects\<close>

text \<open>
  The fields of \<^verbatim>\<open>api.ObjectMeta\<close> the program touches; the object kinds extend it as the Go
  structs embed it. Fields that no code of the program reads or writes (selectors, status, ...) are
  left out: every operation of the program carries them along unchanged.
\<close>

record owner_reference =
  OwnerAPIVersion :: string
  OwnerKind :: string
  OwnerName :: string
  OwnerUID :: string

record object_meta =
  Name :: string
  Namespace :: string
  UID :: string
  ResourceVersion :: string
  Labels :: gomap
  Annotations :: gomap
  OwnerReferences :: "owner_reference list"

record int_or_string =
  IsString :: bool
  IntVal :: int32
  StrVal :: string

text \<open>\<^verbatim>\<open>intstr.FromInt\<close>: the value is cut to 32 bits.\<close>

definition FromInt :: "int \<Rightarrow> int_or_string" where
  "FromInt v = \<lparr>IsString = False, IntVal = word_of_int v, StrVal = ''''\<rparr>"

record service_port =
  PortName :: string
  Port :: int32
  TargetPort :: int_or_string
  NodePort :: int32

record service = object_meta +
  ServiceType :: string
  Ports :: "service_port list"
  ClusterIP :: string
  ExternalIPs :: "string list"
  LoadBalancerIP :: string

record http_ingress_path =
  BackendServiceName :: string
  BackendServicePort :: int_or_string
  Path :: string

text \<open>\<open>HTTP\<close> is a pointer, and \<open>Rules\<close> a slice the code compares with nil.\<close>

record ingress_rule =
  RuleHost :: string
  HTTP :: "http_ingress_path list option"

record ingress_tls =
  TLSHosts :: "string list"
  SecretName :: string

record ingress = object_meta +
  Rules :: "ingress_rule list option"
  TLS :: "ingress_tls list"

record tls_config =
  Termination :: string
  InsecureEdgeTerminationPolicy :: string

record route = object_meta +
  RouteTo :: string
  RouteHost :: string
  RoutePath :: string
  RouteTLS :: "tls_config option"

record config_map = object_meta +
  Data :: gomap

record env_var =
  EnvName :: string
  EnvValue :: string

record container =
  ContainerName :: string
  Env :: "env_var list"

record deployment = object_meta +
  Containers :: "container list"

record pod = object_meta +
  PodContainers :: "container list"

record node_address =
  AddressType :: string
  Address :: string

record node = object_meta +
  ExternalID :: string
  Addresses :: "node_address list"

record oauth_client = object_meta +
  RedirectURIs :: "string list"

text \<open>The annotations and labels of an object, read the way Go reads a map.\<close>

abbreviation annotation :: "'a object_meta_scheme \<Rightarrow> string \<Rightarrow> string" where
  "annotation obj k \<equiv> mget (Annotations obj) k"

abbreviation label :: "'a object_meta_scheme \<Rightarrow> string \<Rightarrow> string" where
  "label obj k \<equiv> mget (Labels obj) k"

definition empty_meta :: "string \<Rightarrow> string \<Rightarrow> object_meta" where
  "empty_meta ns n =
     \<lparr>Name = n, Namespace = ns, UID = '''', ResourceVersion = '''', Labels = None, Annotations = None,
      OwnerReferences = []\<rparr>"


section \<open>Clients\<close>

text \<open>
  The Kubernetes client, one function per request the program sends. A read is a function of the
  server state; a write also returns the state after it. \<open>'b\<close> is the type of byte buffers.
  \<open>nodes_list\<close> returns the items beside the error, as the client does: its first argument is
  the label selector. \<open>root_paths\<close> is \<^verbatim>\<open>c.Get().AbsPath("").DoRaw()\<close>.
\<close>

record ('w, 'b) client =
  root_paths :: "'w \<Rightarrow> 'b \<times> api_error option"
  nodes_list :: "(string \<times> string) option \<Rightarrow> 'w \<Rightarrow> node list \<times> api_error option"
  pods_get :: "string \<Rightarrow> string \<Rightarrow> 'w \<Rightarrow> api_error + pod"
  services_get :: "string \<Rightarrow> string \<Rightarrow> 'w \<Rightarrow> api_error + service"
  services_update :: "string \<Rightarrow> service \<Rightarrow> 'w \<Rightarrow> (api_error + service) \<times> 'w"
  services_patch :: "string \<Rightarrow> string \<Rightarrow> 'b \<Rightarrow> 'w \<Rightarrow> api_error option \<times> 'w"
  ingress_get :: "string \<Rightarrow> string \<Rightarrow> 'w \<Rightarrow> api_error + ingress"
  ingress_list :: "string \<Rightarrow> 'w \<Rightarrow> api_error + ingress list"
  ingress_create :: "string \<Rightarrow> ingress \<Rightarrow> 'w \<Rightarrow> (api_error + ingress) \<times> 'w"
  ingress_update :: "string \<Rightarrow> ingress \<Rightarrow> 'w \<Rightarrow> (api_error + ingress) \<times> 'w"
  ingress_delete :: "string \<Rightarrow> string \<Rightarrow> 'w \<Rightarrow> api_error option \<times> 'w"
  configmaps_get :: "string \<Rightarrow> string \<Rightarrow> 'w \<Rightarrow> api_error + config_map"
  configmaps_list :: "string \<Rightarrow> 'w \<Rightarrow> api_error + config_map list"
  configmaps_update :: "string \<Rightarrow> config_map \<Rightarrow> 'w \<Rightarrow> (api_error + config_map) \<times> 'w"
  deployments_list :: "string \<Rightarrow> 'w \<Rightarrow> api_error + deployment list"
  deployments_update :: "string \<Rightarrow> deployment \<Rightarrow> 'w \<Rightarrow> (api_error + deployment) \<times> 'w"
  namespaces_get :: "string \<Rightarrow> 'w \<Rightarrow> api_error + object_meta"

text \<open>The OpenShift client.\<close>

record 'w oclient =
  routes_get :: "string \<Rightarrow> string \<Rightarrow> 'w \<Rightarrow> api_error + route"
  routes_create :: "string \<Rightarrow> route \<Rightarrow> 'w \<Rightarrow> (api_error + route) \<times> 'w"
  routes_update :: "string \<Rightarrow> route \<Rightarrow> 'w \<Rightarrow> (api_error + route) \<times> 'w"
  routes_delete :: "string \<Rightarrow> string \<Rightarrow> 'w \<Rightarrow> api_error option \<times> 'w"
  oauthclients_get :: "string \<Rightarrow> 'w \<Rightarrow> api_error + oauth_client"
  oauthclients_create :: "oauth_client \<Rightarrow> 'w \<Rightarrow> (api_error + oauth_client) \<times> 'w"
  oauthclients_delete :: "string \<Rightarrow> 'w \<Rightarrow> api_error option \<times> 'w"

text \<open>
  Library code the program is given or calls and that the model does not contain: the object
  encoder (\<^verbatim>\<open>runtime.Encoder\<close>) and \<^verbatim>\<open>strategicpatch.CreateTwoWayMergePatch\<close>, the JSON
  decoding of the API root (the decoded paths, and the error), what \<^verbatim>\<open>text/template\<close> prints
  for a template outside the modelled fragment (\<open>None\<close>: it does not parse), what
  \<^verbatim>\<open>fmt.Sprintf\<close> prints for a format outside it, \<^verbatim>\<open>net.ParseIP(s).String()\<close>
  for an IPv6 text, \<^verbatim>\<open>yaml.Marshal\<close> on the nested maps the program builds, and the order in
  which a \<^verbatim>\<open>range\<close> loop visits a map.
\<close>

text \<open>The fields of the URL template: service, namespace and domain.\<close>

type_synonym urlTemplateParts = "string \<times> string \<times> string"

datatype yaml_value = YString string | YMap "(string \<times> yaml_value) list"

record 'b golib =
  encode :: "service \<Rightarrow> goerror + 'b"
  merge_patch :: "'b \<Rightarrow> 'b \<Rightarrow> goerror + 'b"
  decode_root_paths :: "'b \<Rightarrow> string list \<times> goerror option"
  template_rest :: "string \<Rightarrow> urlTemplateParts \<Rightarrow> string option"
  sprintf_rest :: "string \<Rightarrow> string list \<Rightarrow> string"
  ipv6_string :: "string \<Rightarrow> string"
  yaml_marshal :: "yaml_value \<Rightarrow> goerror + string"
  range_order :: "(string, string) fmap \<Rightarrow> (string \<times> string) list"

text \<open>A loop over a map visits every entry once, in an order the language leaves open.\<close>

definition range_ok :: "'b golib \<Rightarrow> bool" where
  "range_ok L \<longleftrightarrow>
     (\<forall>m. distinct (map fst (range_order L m)) \<and> map_of (range_order L m) = fmlookup m)"

end
