(* ===== verification/KubeServer.thy ===== *)
theory KubeServer
  imports KubeApi "HOL-Library.AList" "HOL-Library.List_Lexorder" "HOL-Library.Char_ord"
begin

text \<open>
  What the program relies on of the API server. A server state is seen through \<open>cluster\<close>, the
  maps from namespace and name to the stored objects. The locale \<open>kube_server\<close> states what
  the server documents of a request that succeeds; nothing is assumed of a request that fails,
  beyond what the status NotFound means, since a lost answer may hide a completed write. The
  extension \<open>atomic_server\<close> adds that a refused write changes nothing. A reference server
  satisfies both.
\<close>

section \<open>The view of a server state\<close>

type_synonym key = "string \<times> string"

record cluster =
  svcs :: "key \<rightharpoonup> service"
  ings :: "key \<rightharpoonup> ingress"
  cmaps :: "key \<rightharpoonup> config_map"
  deps :: "key \<rightharpoonup> deployment"
  rts :: "key \<rightharpoonup> route"
  oauths :: "string \<rightharpoonup> oauth_client"

text \<open>
  Objects travel as JSON whose map and slice fields are left out when empty, so a nil map and an
  empty one are the same to the server.
\<close>

definition wire_map :: "gomap \<Rightarrow> gomap" where
  "wire_map m = (if mmake m = fmempty then None else m)"

definition wire_meta :: "'a object_meta_scheme \<Rightarrow> 'a object_meta_scheme" where
  "wire_meta x = x\<lparr>Labels := wire_map (Labels x), Annotations := wire_map (Annotations x)\<rparr>"

lemma mget_wire_map [simp]: "mget (wire_map m) k = mget m k"
  by (cases m) (auto simp: wire_map_def)

lemma mmake_wire_map [simp]: "mmake (wire_map m) = mmake m"
  by (cases m) (auto simp: wire_map_def)

lemma wire_meta_simps [simp]:
  "Name (wire_meta x) = Name x" "Namespace (wire_meta x) = Namespace x"
  "UID (wire_meta x) = UID x" "OwnerReferences (wire_meta x) = OwnerReferences x"
  "annotation (wire_meta x) k = annotation x k" "label (wire_meta x) k = label x k"
  by (simp_all add: wire_meta_def)

text \<open>
  A stored object agrees with the one a client sent on everything the client set; the server owns
  the resource version and the UID of a new object, and fills in what was left empty (the node
  port and the cluster IP of a service, the host of a route).
\<close>

definition same_meta :: "'a object_meta_scheme \<Rightarrow> 'a object_meta_scheme \<Rightarrow> bool" where
  "same_meta x y \<longleftrightarrow>
     Name y = Name x \<and> Namespace y = Namespace x \<and>
     wire_map (Labels y) = wire_map (Labels x) \<and>
     wire_map (Annotations y) = wire_map (Annotations x) \<and>
     OwnerReferences y = OwnerReferences x"

definition same_port :: "service_port \<Rightarrow> service_port \<Rightarrow> bool" where
  "same_port p q \<longleftrightarrow>
     PortName q = PortName p \<and> Port q = Port p \<and> TargetPort q = TargetPort p \<and>
     (NodePort p = 0 \<or> NodePort q = NodePort p)"

definition accepts_service :: "service \<Rightarrow> service \<Rightarrow> bool" where
  "accepts_service s t \<longleftrightarrow>
     same_meta s t \<and> UID t = UID s \<and> ServiceType t = ServiceType s \<and>
     list_all2 same_port (Ports s) (Ports t) \<and>
     (ClusterIP s = '''' \<or> ClusterIP t = ClusterIP s) \<and>
     ExternalIPs t = ExternalIPs s \<and> LoadBalancerIP t = LoadBalancerIP s"

definition wire_rules :: "ingress_rule list option \<Rightarrow> ingress_rule list option" where
  "wire_rules rs = (if rs = Some [] then None else rs)"

definition accepts_ingress :: "ingress \<Rightarrow> ingress \<Rightarrow> bool" where
  "accepts_ingress i j \<longleftrightarrow>
     same_meta i j \<and> wire_rules (Rules j) = wire_rules (Rules i) \<and> TLS j = TLS i"

definition accepts_route :: "route \<Rightarrow> route \<Rightarrow> bool" where
  "accepts_route r t \<longleftrightarrow>
     same_meta r t \<and> RouteTo t = RouteTo r \<and> RoutePath t = RoutePath r \<and> RouteTLS t = RouteTLS r \<and>
     (RouteHost r = '''' \<or> RouteHost t = RouteHost r)"

definition accepts_config_map :: "config_map \<Rightarrow> config_map \<Rightarrow> bool" where
  "accepts_config_map c d \<longleftrightarrow> same_meta c d \<and> wire_map (Data d) = wire_map (Data c)"

lemma wire_map_eq_mget: "wire_map m = wire_map m' \<Longrightarrow> mget m k = mget m' k"
  by (metis mget_wire_map)

lemma same_meta_annotation: "same_meta x y \<Longrightarrow> annotation y k = annotation x k"
  by (auto simp: same_meta_def dest: wire_map_eq_mget)

lemma same_meta_label: "same_meta x y \<Longrightarrow> label y k = label x k"
  by (auto simp: same_meta_def dest: wire_map_eq_mget)

lemma accepts_service_annotation:
  "accepts_service s t \<Longrightarrow> annotation t k = annotation s k"
  by (simp add: accepts_service_def same_meta_annotation)


section \<open>The laws of a server\<close>

locale kube_server =
  fixes K :: "('w, 'b) client"
    and L :: "'b golib"
    and view :: "'w \<Rightarrow> cluster"
  assumes get_ingress: "ingress_get K ns n w = Inr i \<Longrightarrow> ings (view w) (ns, n) = Some i"
    and get_no_ingress: "ingress_get K ns n w = Inl NotFound \<Longrightarrow> ings (view w) (ns, n) = None"
    and create_ingress: "ingress_create K ns i w = (Inr j, w') \<Longrightarrow>
      accepts_ingress i j \<and>
      view w' = (view w)\<lparr>ings := (ings (view w))((ns, Name i) \<mapsto> j)\<rparr>"
    and update_ingress: "ingress_update K ns i w = (Inr j, w') \<Longrightarrow>
      accepts_ingress i j \<and>
      view w' = (view w)\<lparr>ings := (ings (view w))((ns, Name i) \<mapsto> j)\<rparr>"
    and delete_ingress: "ingress_delete K ns n w = (None, w') \<Longrightarrow>
      view w' = (view w)\<lparr>ings := (ings (view w))((ns, n) := None)\<rparr>"
    and delete_no_ingress: "ingress_delete K ns n w = (Some NotFound, w') \<Longrightarrow>
      view w' = view w \<and> ings (view w) (ns, n) = None"
    and get_service: "services_get K ns n w = Inr s \<Longrightarrow> svcs (view w) (ns, n) = Some s"
    and update_service: "services_update K ns s w = (Inr t, w') \<Longrightarrow>
      accepts_service s t \<and>
      view w' = (view w)\<lparr>svcs := (svcs (view w))((ns, Name s) \<mapsto> t)\<rparr>"
    and patch_service: "svcs (view w) (ns, n) = Some a \<Longrightarrow>
      encode L a = Inr ea \<Longrightarrow> encode L b = Inr eb \<Longrightarrow> merge_patch L ea eb = Inr p \<Longrightarrow>
      services_patch K ns n p w = (None, w') \<Longrightarrow>
      \<exists>t. accepts_service b t \<and>
          view w' = (view w)\<lparr>svcs := (svcs (view w))((ns, n) \<mapsto> t)\<rparr>"
    and patch_frame: "services_patch K ns n p w = (None, w') \<Longrightarrow>
      \<exists>t. view w' = (view w)\<lparr>svcs := (svcs (view w))((ns, n) := t)\<rparr>"
    and encode_same: "encode L a = Inr e \<Longrightarrow> encode L b = Inr e \<Longrightarrow> accepts_service b a"

text \<open>A server that, when it refuses a write, has not carried it out.\<close>

locale atomic_server = kube_server +
  assumes refused_create_ingress: "ingress_create K ns i w = (Inl e, w') \<Longrightarrow> view w' = view w"
    and refused_update_ingress: "ingress_update K ns i w = (Inl e, w') \<Longrightarrow> view w' = view w"
    and refused_delete_ingress: "ingress_delete K ns n w = (Some e, w') \<Longrightarrow> view w' = view w"
    and refused_update_service: "services_update K ns s w = (Inl e, w') \<Longrightarrow> view w' = view w"
    and refused_patch_service: "services_patch K ns n p w = (Some e, w') \<Longrightarrow> view w' = view w"

section \<open>A reference server\<close>

text \<open>
  A server over association lists: it stores what it is sent, with a fresh resource version, and
  refuses what Kubernetes refuses (reading, updating or deleting an object that is not there,
  creating one that is). Its buffers hold documents, differences of two documents, or the paths of
  the API root.
\<close>

datatype buffer = Doc service | Diff service service | Paths "string list"

record ref_state =
  ref_services :: "(key \<times> service) list"
  ref_ingresses :: "(key \<times> ingress) list"
  ref_configmaps :: "(key \<times> config_map) list"
  ref_deployments :: "(key \<times> deployment) list"
  ref_routes :: "(key \<times> route) list"
  ref_oauthclients :: "(string \<times> oauth_client) list"
  ref_nodes :: "node list"
  ref_paths :: "string list"

definition ref_view :: "ref_state \<Rightarrow> cluster" where
  "ref_view w =
     \<lparr>svcs = map_of (ref_services w), ings = map_of (ref_ingresses w),
      cmaps = map_of (ref_configmaps w), deps = map_of (ref_deployments w),
      rts = map_of (ref_routes w), oauths = map_of (ref_oauthclients w)\<rparr>"

definition stamp :: "'a object_meta_scheme \<Rightarrow> 'a object_meta_scheme" where
  "stamp x = x\<lparr>ResourceVersion := ''1'' @ ResourceVersion x\<rparr>"

definition ref_get :: "('k \<times> 'o) list \<Rightarrow> 'k \<Rightarrow> api_error + 'o" where
  "ref_get xs k = (case map_of xs k of None \<Rightarrow> Inl NotFound | Some x \<Rightarrow> Inr x)"

text \<open>Listing a namespace, or every namespace for the empty name.\<close>

definition ref_list :: "(key \<times> 'o) list \<Rightarrow> string \<Rightarrow> api_error + 'o list" where
  "ref_list xs ns =
     Inr (map snd (filter (\<lambda>((ns', n), x). ns = '''' \<or> ns' = ns) (AList.clearjunk xs)))"

definition ref_client :: "(ref_state, buffer) client" where
  "ref_client =
     \<lparr>root_paths = (\<lambda>w. (Paths (ref_paths w), None)),
      nodes_list = (\<lambda>sel w. (case sel of
          None \<Rightarrow> ref_nodes w
        | Some (k, v) \<Rightarrow> filter (\<lambda>x. label x k = v \<and> v \<noteq> '''') (ref_nodes w), None)),
      pods_get = (\<lambda>ns n w. Inl NotFound),
      services_get = (\<lambda>ns n w. ref_get (ref_services w) (ns, n)),
      services_update = (\<lambda>ns s w. case map_of (ref_services w) (ns, Name s) of
          None \<Rightarrow> (Inl NotFound, w)
        | Some _ \<Rightarrow> (Inr (stamp s),
            w\<lparr>ref_services := AList.update (ns, Name s) (stamp s) (ref_services w)\<rparr>)),
      services_patch = (\<lambda>ns n p w. case (map_of (ref_services w) (ns, n), p) of
          (None, _) \<Rightarrow> (Some NotFound, w)
        | (Some _, Diff a b) \<Rightarrow> (None,
            w\<lparr>ref_services := AList.update (ns, n) (stamp b) (ref_services w)\<rparr>)
        | (Some _, _) \<Rightarrow> (Some (Failure ''invalid patch''), w)),
      ingress_get = (\<lambda>ns n w. ref_get (ref_ingresses w) (ns, n)),
      ingress_list = (\<lambda>ns w. ref_list (ref_ingresses w) ns),
      ingress_create = (\<lambda>ns i w. case map_of (ref_ingresses w) (ns, Name i) of
          Some _ \<Rightarrow> (Inl (Failure ''already exists''), w)
        | None \<Rightarrow> (Inr (stamp i),
            w\<lparr>ref_ingresses := AList.update (ns, Name i) (stamp i) (ref_ingresses w)\<rparr>)),
      ingress_update = (\<lambda>ns i w. case map_of (ref_ingresses w) (ns, Name i) of
          None \<Rightarrow> (Inl NotFound, w)
        | Some _ \<Rightarrow> (Inr (stamp i),
            w\<lparr>ref_ingresses := AList.update (ns, Name i) (stamp i) (ref_ingresses w)\<rparr>)),
      ingress_delete = (\<lambda>ns n w. case map_of (ref_ingresses w) (ns, n) of
          None \<Rightarrow> (Some NotFound, w)
        | Some _ \<Rightarrow> (None, w\<lparr>ref_ingresses := AList.delete (ns, n) (ref_ingresses w)\<rparr>)),
      configmaps_get = (\<lambda>ns n w. ref_get (ref_configmaps w) (ns, n)),
      configmaps_list = (\<lambda>ns w. ref_list (ref_configmaps w) ns),
      configmaps_update = (\<lambda>ns c w. case map_of (ref_configmaps w) (ns, Name c) of
          None \<Rightarrow> (Inl NotFound, w)
        | Some _ \<Rightarrow> (Inr (stamp c),
            w\<lparr>ref_configmaps := AList.update (ns, Name c) (stamp c) (ref_configmaps w)\<rparr>)),
      deployments_list = (\<lambda>ns w. ref_list (ref_deployments w) ns),
      deployments_update = (\<lambda>ns d w. case map_of (ref_deployments w) (ns, Name d) of
          None \<Rightarrow> (Inl NotFound, w)
        | Some _ \<Rightarrow> (Inr (stamp d),
            w\<lparr>ref_deployments := AList.update (ns, Name d) (stamp d) (ref_deployments w)\<rparr>)),
      namespaces_get = (\<lambda>n w. Inl NotFound)\<rparr>"

definition ref_lib :: "buffer golib" where
  "ref_lib =
     \<lparr>encode = (\<lambda>s. Inr (Doc s)),
      merge_patch = (\<lambda>a b. case (a, b) of
          (Doc s, Doc t) \<Rightarrow> Inr (Diff s t)
        | _ \<Rightarrow> Inl (ErrMsg ''not a document'')),
      decode_root_paths = (\<lambda>b. case b of Paths ps \<Rightarrow> (ps, None) | _ \<Rightarrow> ([], Some (ErrMsg ''not paths''))),
      template_rest = (\<lambda>t parts. None),
      sprintf_rest = (\<lambda>fmt args. fmt),
      ipv6_string = (\<lambda>s. s),
      yaml_marshal = (\<lambda>y. Inr ''yaml''),
      range_order = sorted_list_of_fmap\<rparr>"

lemma range_ok_ref_lib: "range_ok ref_lib"
proof -
  have "distinct (map fst (sorted_list_of_fmap m))" for m :: "(string, string) fmap"
    by (simp add: sorted_list_of_fmap_def comp_def sorted_list_of_fset.rep_eq)
  then show ?thesis by (simp add: range_ok_def ref_lib_def)
qed

lemma same_port_refl [simp]: "same_port p p"
  by (simp add: same_port_def)

lemma accepts_stamp [simp]:
  "accepts_service s (stamp s)" "accepts_ingress i (stamp i)" "accepts_route r (stamp r)"
  "accepts_config_map c (stamp c)"
  by (simp_all add: accepts_service_def accepts_ingress_def accepts_route_def
      accepts_config_map_def same_meta_def stamp_def list_all2_same)

lemma accepts_service_refl [simp]: "accepts_service s s"
  by (simp add: accepts_service_def same_meta_def list_all2_same)

lemmas ref_defs = ref_client_def ref_lib_def ref_view_def ref_get_def

interpretation ref: kube_server ref_client ref_lib ref_view
  by unfold_locales
    (auto simp: ref_defs update_conv' delete_conv' split: option.splits buffer.splits,
      metis accepts_stamp(1))

interpretation ref: atomic_server ref_client ref_lib ref_view
  by unfold_locales (auto simp: ref_defs split: option.splits buffer.splits)

end
