(* ===== verification/Utils.thy ===== *)
theory Utils
  imports KubeServer
begin

text \<open>
  \<^verbatim>\<open>exposestrategy/utils.go\<close>: the annotations a strategy puts on a service and takes away, the
  protocol of a host, URL joining, the URL format, the type of the master, and the patch block
  that every strategy ends with.
\<close>

section \<open>Annotation keys\<close>

text \<open>The variables of \<^verbatim>\<open>exposestrategy/strategy.go\<close>.\<close>

record expose_label =
  LabelKey :: string
  LabelValue :: string

abbreviation ExposeLabel :: expose_label where
  "ExposeLabel \<equiv> \<lparr>LabelKey = ''expose'', LabelValue = ''true''\<rparr>"

abbreviation ExposeAnnotation :: expose_label where
  "ExposeAnnotation \<equiv> \<lparr>LabelKey = ''fabric8.io/expose'', LabelValue = ''true''\<rparr>"

abbreviation InjectAnnotation :: expose_label where
  "InjectAnnotation \<equiv> \<lparr>LabelKey = ''fabric8.io/inject'', LabelValue = ''true''\<rparr>"

abbreviation ExposeHostNameAsAnnotationKey :: string where
  "ExposeHostNameAsAnnotationKey \<equiv> ''fabric8.io/exposeHostNameAs''"

abbreviation ExposeAnnotationKey :: string where
  "ExposeAnnotationKey \<equiv> ''fabric8.io/exposeUrl''"

abbreviation ExposePortAnnotationKey :: string where
  "ExposePortAnnotationKey \<equiv> ''fabric8.io/exposePort''"

abbreviation ApiServicePathAnnotationKey :: string where
  "ApiServicePathAnnotationKey \<equiv> ''api.service.kubernetes.io/path''"


section \<open>Joining URLs\<close>

text \<open>\<^verbatim>\<open>urlJoin\<close>, of which the controller has a copy.\<close>

definition urlJoin :: "string \<Rightarrow> string \<Rightarrow> string" where
  "urlJoin repo path = TrimSuffix repo ''/'' @ ''/'' @ TrimPrefix path ''/''"

text \<open>One iteration of the loop of \<^verbatim>\<open>UrlJoin\<close>: what it writes for path \<open>i\<close>.\<close>

definition UrlJoin_piece :: "nat \<Rightarrow> nat \<times> string \<Rightarrow> string" where
  "UrlJoin_piece last_index ip =
     (case ip of (i, path) \<Rightarrow>
       let p = (if i > 0 then TrimPrefix path ''/'' else path);
           q = (if i < last_index then TrimSuffix p ''/'' else p)
       in (if i > 0 then ''/'' else '''') @ q)"

definition UrlJoin :: "string list \<Rightarrow> string" where
  "UrlJoin paths = concat (map (UrlJoin_piece (length paths - 1)) (enumerate 0 paths))"


section \<open>The protocol of a host\<close>

definition findHttpProtocol :: "service \<Rightarrow> string \<Rightarrow> string" where
  "findHttpProtocol svc hostName =
     (let protocol =
        (case SplitHostPort hostName of
           Some (_, port) \<Rightarrow> if port = ''443'' \<or> port = ''8443'' then ''https'' else ''http''
         | None \<Rightarrow> ''http'')
      in foldl (\<lambda>pr p. if PortName p = ''https'' then PortName p else pr) protocol (Ports svc))"


section \<open>Service annotations\<close>

text \<open>
  The operations change the service they are given; the error the first two return beside it is
  always nil.
\<close>

definition addServiceAnnotationWithProtocol :: "service \<Rightarrow> string \<Rightarrow> string \<Rightarrow> service" where
  "addServiceAnnotationWithProtocol svc hostName protocol =
     (let m = mmake (Annotations svc);
          base = protocol @ ''://'' @ hostName;
          path = fget m ApiServicePathAnnotationKey;
          exposeURL = (if path \<noteq> '''' then urlJoin base path else base);
          m1 = fmupd ExposeAnnotationKey exposeURL m;
          key = fget m1 ExposeHostNameAsAnnotationKey;
          m2 = (if key \<noteq> '''' then fmupd key hostName m1 else m1)
      in svc\<lparr>Annotations := Some m2\<rparr>)"

definition addServiceAnnotation :: "service \<Rightarrow> string \<Rightarrow> service" where
  "addServiceAnnotation svc hostName =
     addServiceAnnotationWithProtocol svc hostName (findHttpProtocol svc hostName)"

definition removeServiceAnnotation :: "service \<Rightarrow> service" where
  "removeServiceAnnotation svc =
     (let m1 = mdelete (Annotations svc) ExposeAnnotationKey;
          key = mget m1 ExposeHostNameAsAnnotationKey
      in svc\<lparr>Annotations := (if key \<noteq> '''' then mdelete m1 key else m1)\<rparr>)"

text \<open>The URL the annotation gets.\<close>

definition exposeURL_of :: "service \<Rightarrow> string \<Rightarrow> string \<Rightarrow> string" where
  "exposeURL_of svc hostName protocol =
     (let path = annotation svc ApiServicePathAnnotationKey; base = protocol @ ''://'' @ hostName
      in if path \<noteq> '''' then urlJoin base path else base)"


section \<open>Patches\<close>

text \<open>\<^verbatim>\<open>createPatch\<close>: no patch (\<open>None\<close>) when both objects encode to the same bytes.\<close>

definition createPatch :: "'b golib \<Rightarrow> service \<Rightarrow> service \<Rightarrow> goerror + 'b option" where
  "createPatch L a b =
     (case encode L a of
        Inl e \<Rightarrow> Inl (WithMessage ''failed to encode object'' e)
      | Inr aBytes \<Rightarrow>
          (case encode L b of
             Inl e \<Rightarrow> Inl (WithMessage ''failed to encode object'' e)
           | Inr bBytes \<Rightarrow>
               if aBytes = bBytes then Inr None
               else case merge_patch L aBytes bBytes of
                      Inl e \<Rightarrow> Inl (WithMessage ''failed to create patch'' e)
                    | Inr patch \<Rightarrow> Inr (Some patch)))"

text \<open>
  The block at the end of every \<^verbatim>\<open>Add\<close> and \<^verbatim>\<open>Remove\<close>: make the patch from the service to
  its changed clone and send it, if there is one. \<open>msg\<close> is the text a failed request is
  wrapped with.
\<close>

definition patchService ::
  "('w, 'b) client \<Rightarrow> 'b golib \<Rightarrow> string \<Rightarrow> service \<Rightarrow> service \<Rightarrow> 'w \<Rightarrow> unit outcome \<times> 'w" where
  "patchService K L msg svc clone w =
     (case createPatch L svc clone of
        Inl e \<Rightarrow> (return_error (Wrap (Some e) ''failed to create patch''), w)
      | Inr None \<Rightarrow> (Ok (), w)
      | Inr (Some patch) \<Rightarrow>
          (case services_patch K (Namespace svc) (Name svc) patch w of
             (None, w') \<Rightarrow> (Ok (), w')
           | (Some e, w') \<Rightarrow> (return_error (Wrap (Some (ApiErr e)) msg), w')))"


section \<open>The type of the master\<close>

datatype masterType = openShift | kubernetes

text \<open>
  Both errors are wrapped and dropped; the loop then looks at whatever paths were decoded. The
  error result is always nil.
\<close>

definition typeOfMaster :: "('w, 'b) client \<Rightarrow> 'b golib \<Rightarrow> 'w \<Rightarrow> masterType outcome" where
  "typeOfMaster K L w =
     (let res = fst (root_paths K w); rp = fst (decode_root_paths L res)
      in if ''/oapi'' \<in> set rp then Ok openShift else Ok kubernetes)"


section \<open>The URL format\<close>

text \<open>
  The fragment of \<^verbatim>\<open>text/template\<close> that the URL template uses: plain text and the fields
  \<^verbatim>\<open>{{.Service}}\<close>, \<^verbatim>\<open>{{.Namespace}}\<close>, \<^verbatim>\<open>{{.Domain}}\<close>; \<open>None\<close> for any other
  action.
\<close>

datatype template_node = TText char | TService | TNamespace | TDomain

function template_parse :: "string \<Rightarrow> template_node list option" where
  "template_parse s =
     (if s = [] then Some []
      else if HasPrefix s ''{{.Service}}'' then map_option ((#) TService) (template_parse (drop 12 s))
      else if HasPrefix s ''{{.Namespace}}'' then map_option ((#) TNamespace) (template_parse (drop 14 s))
      else if HasPrefix s ''{{.Domain}}'' then map_option ((#) TDomain) (template_parse (drop 11 s))
      else if HasPrefix s ''{{'' then None
      else map_option ((#) (TText (hd s))) (template_parse (tl s)))"
  by pat_completeness auto
termination
  by (relation "measure length") auto

declare template_parse.simps [simp del]

fun template_node_text :: "urlTemplateParts \<Rightarrow> template_node \<Rightarrow> string" where
  "template_node_text (s, n, d) (TText c) = [c]"
| "template_node_text (s, n, d) TService = s"
| "template_node_text (s, n, d) TNamespace = n"
| "template_node_text (s, n, d) TDomain = d"

definition template_execute :: "template_node list \<Rightarrow> urlTemplateParts \<Rightarrow> string" where
  "template_execute ts parts = concat (map (template_node_text parts) ts)"

abbreviation defaultUrlTemplate :: string where
  "defaultUrlTemplate \<equiv> ''{{.Service}}.{{.Namespace}}.{{.Domain}}''"

text \<open>
  A template that does not parse leaves \<^verbatim>\<open>tmpl\<close> nil, and executing it panics; the error is
  wrapped and dropped. An error of the execution is dropped too: the text written so far is the
  result.
\<close>

definition getURLFormat :: "'b golib \<Rightarrow> string \<Rightarrow> string outcome" where
  "getURLFormat L urltemplate =
     (let t = (if urltemplate = '''' then defaultUrlTemplate else urltemplate);
          placeholders = (''%[1]s'', ''%[2]s'', ''%[3]s'')
      in case template_parse t of
           Some ts \<Rightarrow> Ok (template_execute ts placeholders)
         | None \<Rightarrow> (case template_rest L t placeholders of
               None \<Rightarrow> Panic ''nil pointer dereference''
             | Some out \<Rightarrow> Ok out))"

section \<open>Lemmas on annotations\<close>

lemma addServiceAnnotationWithProtocol_meta [simp]:
  "Name (addServiceAnnotationWithProtocol svc h p) = Name svc"
  "Namespace (addServiceAnnotationWithProtocol svc h p) = Namespace svc"
  "Labels (addServiceAnnotationWithProtocol svc h p) = Labels svc"
  "UID (addServiceAnnotationWithProtocol svc h p) = UID svc"
  "Ports (addServiceAnnotationWithProtocol svc h p) = Ports svc"
  "ServiceType (addServiceAnnotationWithProtocol svc h p) = ServiceType svc"
  "LoadBalancerIP (addServiceAnnotationWithProtocol svc h p) = LoadBalancerIP svc"
  by (simp_all add: addServiceAnnotationWithProtocol_def Let_def)

lemma removeServiceAnnotation_meta [simp]:
  "Name (removeServiceAnnotation svc) = Name svc"
  "Namespace (removeServiceAnnotation svc) = Namespace svc"
  by (simp_all add: removeServiceAnnotation_def Let_def)

lemma annotation_addServiceAnnotationWithProtocol:
  "annotation (addServiceAnnotationWithProtocol svc h p) k =
     (let key = annotation svc ExposeHostNameAsAnnotationKey in
      if key \<noteq> '''' \<and> k = key then h
      else if k = ExposeAnnotationKey then exposeURL_of svc h p
      else annotation svc k)"
  by (auto simp: addServiceAnnotationWithProtocol_def exposeURL_of_def Let_def)

lemma annotation_removeServiceAnnotation:
  "annotation (removeServiceAnnotation svc) k =
     (let key = annotation svc ExposeHostNameAsAnnotationKey in
      if k = ExposeAnnotationKey \<or> key \<noteq> '''' \<and> k = key then '''' else annotation svc k)"
  by (auto simp: removeServiceAnnotation_def Let_def)

text \<open>
  \<^verbatim>\<open>addServiceAnnotationWithProtocol\<close> stores the exposed URL, the protocol and host joined
  with the API path when the service has one, under \<^verbatim>\<open>fabric8.io/exposeUrl\<close>, and the host
  under the key that \<^verbatim>\<open>fabric8.io/exposeHostNameAs\<close> names, if any; every other annotation and
  every other field stays as it was.
\<close>

theorem add_annotation_effect:
  "let svc' = addServiceAnnotationWithProtocol svc h p;
       key = annotation svc ExposeHostNameAsAnnotationKey
   in svc' = svc\<lparr>Annotations := Annotations svc'\<rparr> \<and>
      annotation svc' ExposeAnnotationKey =
        (if key = ExposeAnnotationKey then h else exposeURL_of svc h p) \<and>
      (if key = '''' then True else annotation svc' key = h) \<and>
      (\<forall>k. annotation svc' k = annotation svc k \<or> k = ExposeAnnotationKey \<or> k = key)"
  by (auto simp: annotation_addServiceAnnotationWithProtocol Let_def)
     (simp add: addServiceAnnotationWithProtocol_def Let_def)

text \<open>
  C29: removing the annotations takes away exactly what adding them put there: on a service that has
  neither the URL annotation nor an annotation under the key named by
  \<^verbatim>\<open>fabric8.io/exposeHostNameAs\<close>, \<^verbatim>\<open>removeServiceAnnotation\<close> after
  \<^verbatim>\<open>addServiceAnnotationWithProtocol\<close> gives back the same annotations.
\<close>

theorem add_remove_annotation_roundtrip:
  assumes "fmlookup (mmake (Annotations svc)) ExposeAnnotationKey = None"
    and "fmlookup (mmake (Annotations svc)) (annotation svc ExposeHostNameAsAnnotationKey) = None"
  shows "removeServiceAnnotation (addServiceAnnotationWithProtocol svc h p) =
         svc\<lparr>Annotations := Some (mmake (Annotations svc))\<rparr>"
proof -
  let ?m = "mmake (Annotations svc)"
  let ?key = "annotation svc ExposeHostNameAsAnnotationKey"
  have drop: "fmdrop ExposeAnnotationKey (fmupd ExposeAnnotationKey u ?m) = ?m" for u
    using assms(1) by (intro fmap_ext) auto
  have drop2: "fmdrop ?key (fmdrop ExposeAnnotationKey (fmupd ?key h (fmupd ExposeAnnotationKey u ?m))) = ?m" for u
    using assms by (intro fmap_ext) auto
  have "?key \<noteq> ExposeHostNameAsAnnotationKey"
  proof
    assume key: "?key = ExposeHostNameAsAnnotationKey"
    with assms(2) have "?key = ''''" by (cases "Annotations svc") (simp_all add: mget_def)
    with key show False by simp
  qed
  then show ?thesis
    by (simp add: removeServiceAnnotation_def addServiceAnnotationWithProtocol_def Let_def drop drop2)
qed

definition example_service :: service where
  "example_service =
     \<lparr>Name = ''web'', Namespace = ''dev'', UID = ''u1'', ResourceVersion = ''7'', Labels = None,
      Annotations = Some (fmupd ''a'' ''b'' fmempty), OwnerReferences = [], ServiceType = ''ClusterIP'',
      Ports = [\<lparr>PortName = ''http'', Port = 8080, TargetPort = FromInt 80, NodePort = 0\<rparr>],
      ClusterIP = ''10.0.0.1'', ExternalIPs = [], LoadBalancerIP = ''''\<rparr>"

theorem add_remove_annotation_roundtrip_witness:
  "removeServiceAnnotation (addServiceAnnotationWithProtocol example_service ''h.io'' ''http'') =
   example_service"
  using add_remove_annotation_roundtrip [of example_service "''h.io''" "''http''"]
  by (simp add: example_service_def mget_def)


text \<open>The same operation on the annotation map alone, and that doing it again changes nothing.\<close>

definition annotate :: "(string, string) fmap \<Rightarrow> string \<Rightarrow> string \<Rightarrow> (string, string) fmap" where
  "annotate m hostName protocol =
     mmake (Annotations (addServiceAnnotationWithProtocol
       (example_service\<lparr>Annotations := Some m\<rparr>) hostName protocol))"

lemma addServiceAnnotationWithProtocol_annotate:
  "addServiceAnnotationWithProtocol svc h p =
     svc\<lparr>Annotations := Some (annotate (mmake (Annotations svc)) h p)\<rparr>"
  by (simp add: annotate_def addServiceAnnotationWithProtocol_def Let_def)

lemma annotate_not_empty [simp]: "annotate m h p \<noteq> fmempty"
  by (auto simp: annotate_def addServiceAnnotationWithProtocol_def Let_def dest: arg_cong [where f = fmdom])

text \<open>The key for the host name is not one the operation itself reads.\<close>

definition plain_host_key :: "service \<Rightarrow> bool" where
  "plain_host_key svc \<longleftrightarrow>
     annotation svc ExposeHostNameAsAnnotationKey \<notin>
       {ApiServicePathAnnotationKey, ExposeHostNameAsAnnotationKey}"

lemma annotate_idem:
  assumes "fget m ExposeHostNameAsAnnotationKey \<notin>
     {ApiServicePathAnnotationKey, ExposeHostNameAsAnnotationKey}"
  shows "annotate (annotate m h p) h p = annotate m h p"
proof -
  let ?key = "fget m ExposeHostNameAsAnnotationKey"
  have "annotate (annotate m h p) h p = annotate m h p" if "?key = ''''"
    using that by (intro fmap_ext) (simp add: annotate_def addServiceAnnotationWithProtocol_def Let_def)
  moreover have "annotate (annotate m h p) h p = annotate m h p" if "?key \<noteq> ''''"
    using that assms
    by (intro fmap_ext) (simp add: annotate_def addServiceAnnotationWithProtocol_def Let_def)
  ultimately show ?thesis by blast
qed

text \<open>
  A stored service that the server accepted from an annotated clone is a fixed point of the
  annotation.
\<close>

lemma accepted_annotation_fixed:
  assumes "plain_host_key svc"
    and "wire_map (Annotations t) = wire_map (Some (annotate (mmake (Annotations svc)) h p))"
  shows "addServiceAnnotationWithProtocol t h p = t"
proof -
  have "Annotations t = Some (annotate (mmake (Annotations svc)) h p)"
    using assms(2) by (auto simp: wire_map_def split: if_splits)
  with assms(1) show ?thesis
    by (simp add: addServiceAnnotationWithProtocol_annotate annotate_idem plain_host_key_def)
qed

lemma same_ports_findHttpProtocol:
  "list_all2 same_port (Ports s) (Ports t) \<Longrightarrow> findHttpProtocol t h = findHttpProtocol s h"
proof -
  assume "list_all2 same_port (Ports s) (Ports t)"
  then have "map PortName (Ports t) = map PortName (Ports s)"
    by (induction rule: list_all2_induct) (simp_all add: same_port_def)
  moreover have "findHttpProtocol x h =
      (let pr = (case SplitHostPort h of
           Some (_, port) \<Rightarrow> if port = ''443'' \<or> port = ''8443'' then ''https'' else ''http''
         | None \<Rightarrow> ''http'')
       in foldl (\<lambda>pr n. if n = ''https'' then n else pr) pr (map PortName (Ports x)))" for x
    by (simp add: findHttpProtocol_def foldl_map)
  ultimately show ?thesis by simp
qed


section \<open>Lemmas on URL joining\<close>

text \<open>A path component with no slash at either end.\<close>

definition clean_path :: "string \<Rightarrow> bool" where
  "clean_path p \<longleftrightarrow> p \<noteq> '''' \<and> hd p \<noteq> CHR ''/'' \<and> last p \<noteq> CHR ''/''"

text \<open>A component that may carry one slash before and one after.\<close>

definition slashed :: "bool \<times> string \<times> bool \<Rightarrow> string" where
  "slashed part = (case part of (l, p, r) \<Rightarrow>
     (if l then ''/'' else '''') @ p @ (if r then ''/'' else ''''))"

lemma TrimPrefix_slashed:
  "clean_path p \<Longrightarrow> TrimPrefix (slashed (l, p, r)) ''/'' = slashed (False, p, r)"
  by (cases p) (auto simp: slashed_def clean_path_def TrimPrefix_single)

lemma TrimSuffix_slashed:
  "clean_path p \<Longrightarrow> TrimSuffix (slashed (l, p, r)) ''/'' = slashed (l, p, False)"
  by (auto simp: slashed_def clean_path_def TrimSuffix_single butlast_append)

lemma UrlJoin_piece_slashed:
  assumes "clean_path p"
  shows "UrlJoin_piece n (i, slashed (l, p, r)) =
     (if i > 0 then ''/'' @ slashed (False, p, i \<ge> n \<and> r) else slashed (l, p, i \<ge> n \<and> r))"
  by (simp add: UrlJoin_piece_def Let_def TrimPrefix_slashed [OF assms] TrimSuffix_slashed [OF assms])

lemma UrlJoin_later:
  assumes "\<forall>x \<in> set parts. clean_path (fst (snd x))" "0 < i"
    "n = i + length parts - 1"
  shows "concat (map (UrlJoin_piece n) (enumerate i (map slashed parts))) =
     concat (map (\<lambda>x. ''/'' @ fst (snd x)) parts) @
     (if parts \<noteq> [] \<and> snd (snd (last parts)) then ''/'' else '''')"
  using assms
proof (induction parts arbitrary: i)
  case (Cons part parts)
  obtain l p r where part: "part = (l, p, r)" by (cases part)
  have p: "clean_path p" using Cons.prems(1) part by simp
  have IH: "concat (map (UrlJoin_piece n) (enumerate (Suc i) (map slashed parts))) =
     concat (map (\<lambda>x. ''/'' @ fst (snd x)) parts) @
     (if parts \<noteq> [] \<and> snd (snd (last parts)) then ''/'' else '''')"
    using Cons.prems by (intro Cons.IH) auto
  have "concat (map (UrlJoin_piece n) (enumerate i (map slashed (part # parts)))) =
      UrlJoin_piece n (i, slashed (l, p, r)) @
      concat (map (UrlJoin_piece n) (enumerate (Suc i) (map slashed parts)))"
    by (simp add: part)
  also have "\<dots> = (''/'' @ p @ (if i \<ge> n \<and> r then ''/'' else '''')) @
      concat (map (\<lambda>x. ''/'' @ fst (snd x)) parts) @
      (if parts \<noteq> [] \<and> snd (snd (last parts)) then ''/'' else '''')"
    using Cons.prems(2) by (simp only: IH UrlJoin_piece_slashed [OF p]) (simp add: slashed_def)
  finally show ?case
    using Cons.prems(2,3) by (cases "parts = []") (simp_all add: part)
qed simp

text \<open>
  \<^verbatim>\<open>UrlJoin\<close> puts exactly one slash between its arguments. For components that may carry
  a slash at either end, the result is the bare components separated by single slashes, with the
  leading slash of the first and the trailing slash of the last one kept.
\<close>

theorem UrlJoin_single_slashes:
  assumes "clean_path p1" "\<forall>x \<in> set (part # parts). clean_path (fst (snd x))"
  shows "UrlJoin (map slashed ((l1, p1, r1) # part # parts)) =
     (if l1 then ''/'' else '''') @
     Join (p1 # map (\<lambda>x. fst (snd x)) (part # parts)) ''/'' @
     (if snd (snd (last (part # parts))) then ''/'' else '''')"
proof -
  have join: "Join (x # xs) ''/'' = x @ concat (map (\<lambda>p. ''/'' @ p) xs)" for x :: string and xs
    by (induction xs arbitrary: x) simp_all
  have later: "concat (map (UrlJoin_piece (Suc (length parts)))
        (enumerate (Suc 0) (map slashed (part # parts)))) =
     concat (map (\<lambda>x. ''/'' @ fst (snd x)) (part # parts)) @
     (if snd (snd (last (part # parts))) then ''/'' else '''')"
    using UrlJoin_later [OF assms(2), of "Suc 0" "Suc (length parts)"] by simp
  have "UrlJoin (map slashed ((l1, p1, r1) # part # parts)) =
     UrlJoin_piece (Suc (length parts)) (0, slashed (l1, p1, r1)) @
     concat (map (UrlJoin_piece (Suc (length parts)))
       (enumerate (Suc 0) (map slashed (part # parts))))"
    by (simp add: UrlJoin_def)
  then show ?thesis
    by (simp only: later UrlJoin_piece_slashed [OF assms(1)] join) (simp add: slashed_def comp_def)
qed

theorem UrlJoin_single_slashes_witness:
  "UrlJoin [''/a/'', ''/b/'', ''c/''] = ''/a/b/c/''"
  using UrlJoin_single_slashes [of "''a''"  "(True, ''b'', True)" "[(False, ''c'', True)]" True True]
  by (simp add: clean_path_def slashed_def)

text \<open>
  The two joining functions agree: \<^verbatim>\<open>UrlJoin\<close> on two arguments is \<^verbatim>\<open>urlJoin\<close>.
\<close>

theorem UrlJoin_pair: "UrlJoin [repo, path] = urlJoin repo path"
  by (simp add: UrlJoin_def urlJoin_def UrlJoin_piece_def Let_def)

lemma UrlJoin_path_mode:
  assumes "clean_path ns" "clean_path app"
  shows "UrlJoin [''/'', ns, app, suffix] = ''/'' @ ns @ ''/'' @ app @ ''/'' @ TrimPrefix suffix ''/''"
proof -
  have 1: "TrimSuffix (TrimPrefix ns ''/'') ''/'' = ns" "TrimSuffix (TrimPrefix app ''/'') ''/'' = app"
    using assms TrimPrefix_slashed [of _ False False] TrimSuffix_slashed [of _ False False]
    by (simp_all add: slashed_def)
  have 2: "TrimSuffix ''/'' ''/'' = ''''" by (simp add: TrimSuffix_single)
  show ?thesis
    by (simp add: UrlJoin_def UrlJoin_piece_def Let_def 1 2)
qed

section \<open>Lemmas on the protocol and the URL format\<close>

text \<open>
  \<^verbatim>\<open>findHttpProtocol\<close> answers \<^verbatim>\<open>https\<close> exactly when the host carries port 443 or 8443, or
  some port of the service is named \<^verbatim>\<open>https\<close>, and \<^verbatim>\<open>http\<close> otherwise.
\<close>

theorem findHttpProtocol_https:
  "findHttpProtocol svc hostName =
     (if (\<exists>host port. SplitHostPort hostName = Some (host, port) \<and> (port = ''443'' \<or> port = ''8443'')) \<or>
         ''https'' \<in> PortName ` set (Ports svc)
      then ''https'' else ''http'')"
proof -
  have loop: "foldl (\<lambda>pr p. if PortName p = ''https'' then PortName p else pr) pr ps =
      (if ''https'' \<in> PortName ` set ps then ''https'' else pr)" for pr and ps :: "service_port list"
    by (induction ps arbitrary: pr) auto
  show ?thesis
    by (auto simp: findHttpProtocol_def Let_def loop split: option.splits)
qed

lemma sprintf_scan_template:
  assumes "TText CHR ''%'' \<notin> set ts"
  shows "sprintf_scan (template_execute ts (''%[1]s'', ''%[2]s'', ''%[3]s'')) [s, n, d] =
     Some (template_execute ts (s, n, d), set ts \<inter> {TService, TNamespace, TDomain} \<noteq> {})"
  using assms
proof (induction ts)
  case (Cons t ts)
  then show ?case
    by (cases t) (auto simp: template_execute_def is_digit_def)
qed (simp add: template_execute_def)

text \<open>
  The two stages of the URL template amount to one substitution. For a template of plain text
  (without a percent sign) and at least one of the three fields, \<^verbatim>\<open>getURLFormat\<close> succeeds and
  formatting the service, the namespace and the domain with the format it returns gives the
  template with its fields replaced by them.
\<close>

theorem getURLFormat_substitutes:
  assumes "urltemplate \<noteq> ''''" "template_parse urltemplate = Some ts"
    and "TText CHR ''%'' \<notin> set ts" "set ts \<inter> {TService, TNamespace, TDomain} \<noteq> {}"
  shows "\<exists>fmt. getURLFormat L urltemplate = Ok fmt \<and>
     Sprintf rest fmt [s, n, d] = template_execute ts (s, n, d)"
  using assms sprintf_scan_template [OF assms(3), of s n d]
  by (auto simp: getURLFormat_def Sprintf_def)

theorem getURLFormat_substitutes_witness:
  "\<exists>fmt. getURLFormat ref_lib ''{{.Service}}-x.{{.Domain}}'' = Ok fmt \<and>
     Sprintf (sprintf_rest ref_lib) fmt [''web'', ''dev'', ''io''] = ''web-x.io''"
proof -
  have "template_parse ''{{.Service}}-x.{{.Domain}}'' =
      Some [TService, TText CHR ''-'', TText CHR ''x'', TText CHR ''.'', TDomain]"
    by (simp add: template_parse.simps)
  from getURLFormat_substitutes [OF _ this, of ref_lib "sprintf_rest ref_lib" "''web''" "''dev''" "''io''"]
  show ?thesis by (simp add: template_execute_def)
qed

lemma template_parse_default:
  "template_parse defaultUrlTemplate =
     Some [TService, TText CHR ''.'', TNamespace, TText CHR ''.'', TDomain]"
  by (simp add: template_parse.simps)

text \<open>Without a configured template the host name is service, namespace and domain joined by dots.\<close>

lemma default_url_format:
  "getURLFormat L '''' = Ok ''%[1]s.%[2]s.%[3]s'' \<and>
   Sprintf rest ''%[1]s.%[2]s.%[3]s'' [s, n, d] = s @ ''.'' @ n @ ''.'' @ d"
  by (simp add: getURLFormat_def template_parse_default template_execute_def Sprintf_def is_digit_def)

lemma getURLFormat_not_Err: "getURLFormat L t \<noteq> Err e"
  by (auto simp: getURLFormat_def Let_def split: option.splits)

lemma typeOfMaster_not_Err: "typeOfMaster K L w \<noteq> Err e" "typeOfMaster K L w \<noteq> Panic p"
  by (auto simp: typeOfMaster_def Let_def)

section \<open>Lemmas on patches\<close>

lemma createPatch_same: "encode L a = Inr e \<Longrightarrow> createPatch L a a = Inr None"
  by (simp add: createPatch_def)

lemma createPatch_SomeD:
  "createPatch L a b = Inr (Some p) \<Longrightarrow>
   \<exists>ea eb. encode L a = Inr ea \<and> encode L b = Inr eb \<and> merge_patch L ea eb = Inr p"
  by (auto simp: createPatch_def split: sum.splits if_splits)

lemma createPatch_NoneD:
  "createPatch L a b = Inr None \<Longrightarrow> \<exists>e. encode L a = Inr e \<and> encode L b = Inr e"
  by (auto simp: createPatch_def split: sum.splits if_splits)

lemma patchService_not_Panic [simp]: "fst (patchService K L msg svc clone w) \<noteq> Panic p"
  by (auto simp: patchService_def split: sum.splits option.splits prod.splits)

text \<open>A service that does not change is not written.\<close>

lemma patchService_same:
  "encode L svc = Inr e \<Longrightarrow> patchService K L msg svc svc w = (Ok (), w)"
  by (simp add: patchService_def createPatch_same)

context kube_server
begin

text \<open>The effect of the patch block on the server: the clone is stored, and nothing else changes.\<close>

lemma patchService_stored:
  assumes "patchService K L msg svc clone w = (Ok (), w')"
    and "svcs (view w) (Namespace svc, Name svc) = Some svc"
  shows "\<exists>t. accepts_service clone t \<and>
     view w' = (view w)\<lparr>svcs := (svcs (view w))((Namespace svc, Name svc) \<mapsto> t)\<rparr>"
proof (cases "createPatch L svc clone")
  case (Inl e)
  with assms(1) show ?thesis by (simp add: patchService_def)
next
  case (Inr po)
  show ?thesis
  proof (cases po)
    case None
    with Inr obtain e where "encode L svc = Inr e" "encode L clone = Inr e"
      using createPatch_NoneD by blast
    then have "accepts_service clone svc" by (rule encode_same)
    moreover have "view w' = view w" using assms(1) Inr None by (simp add: patchService_def)
    ultimately show ?thesis using assms(2) by (intro exI [of _ svc]) (simp add: fun_upd_idem)
  next
    case (Some p)
    with Inr have "createPatch L svc clone = Inr (Some p)" by simp
    from createPatch_SomeD [OF this]
    obtain ea eb where "encode L svc = Inr ea" "encode L clone = Inr eb" "merge_patch L ea eb = Inr p"
      by (elim exE conjE)
    moreover from assms(1) Inr Some have "services_patch K (Namespace svc) (Name svc) p w = (None, w')"
      by (auto simp: patchService_def split: option.splits prod.splits)
    ultimately show ?thesis using patch_service [OF assms(2)] by blast
  qed
qed

end

context atomic_server
begin

text \<open>Whatever the patch block answers, it has touched at most the service it was given.\<close>

lemma patchService_frame:
  assumes "patchService K L msg svc clone w = (r, w')"
  shows "\<exists>t. view w' = (view w)\<lparr>svcs := (svcs (view w))((Namespace svc, Name svc) := t)\<rparr>"
proof -
  consider "w' = w"
    | p e' where "services_patch K (Namespace svc) (Name svc) p w = (Some e', w')"
    | p where "services_patch K (Namespace svc) (Name svc) p w = (None, w')"
    using assms by (auto simp: patchService_def split: sum.splits option.splits prod.splits)
  then show ?thesis
  proof cases
    case 1
    then show ?thesis by (intro exI [of _ "svcs (view w) (Namespace svc, Name svc)"]) simp
  next
    case 2
    then have "view w' = view w" by (rule refused_patch_service)
    then show ?thesis by (intro exI [of _ "svcs (view w) (Namespace svc, Name svc)"]) simp
  next
    case 3
    then show ?thesis by (rule patch_frame)
  qed
qed

lemma patchService_refused:
  assumes "patchService K L msg svc clone w = (Err e, w')"
  shows "view w' = view w"
proof -
  consider "w' = w" | p e' where "services_patch K (Namespace svc) (Name svc) p w = (Some e', w')"
    using assms by (auto simp: patchService_def split: sum.splits option.splits prod.splits)
  then show ?thesis by cases (simp_all add: refused_patch_service)
qed

end

end
