(* ===== verification/ExposeStrategy.thy ===== *)
theory ExposeStrategy
  imports Utils
begin

text \<open>
  The interface \<^verbatim>\<open>ExposeStrategy\<close> of \<^verbatim>\<open>exposestrategy/strategy.go\<close>, as the contract its
  implementations share: \<^verbatim>\<open>Add\<close> and \<^verbatim>\<open>Remove\<close> touch no service but their own, a
  successful \<^verbatim>\<open>Add\<close> leaves the service exposed, a successful \<^verbatim>\<open>Remove\<close> leaves it hidden;
  what exposed and hidden mean differs between the strategies. Exposed is a relation between the states
  before and after the call, the service the call was given and the service that is stored then; it
  is promised for states that are well formed in the sense of the strategy. The theorems about runs of several operations are
  proved from the contract.
\<close>

abbreviation service_key :: "service \<Rightarrow> key" where
  "service_key svc \<equiv> (Namespace svc, Name svc)"

datatype strategy_op = OpAdd service | OpRemove service

fun op_key :: "strategy_op \<Rightarrow> key" where
  "op_key (OpAdd svc) = service_key svc"
| "op_key (OpRemove svc) = service_key svc"

text \<open>A sequence of calls; the controller logs an error and goes on with the next event.\<close>

fun run_ops ::
  "(service \<Rightarrow> 'w \<Rightarrow> unit outcome \<times> 'w) \<Rightarrow> (service \<Rightarrow> 'w \<Rightarrow> unit outcome \<times> 'w) \<Rightarrow>
   strategy_op list \<Rightarrow> 'w \<Rightarrow> 'w" where
  "run_ops add remove [] w = w"
| "run_ops add remove (OpAdd svc # ops) w = run_ops add remove ops (snd (add svc w))"
| "run_ops add remove (OpRemove svc # ops) w = run_ops add remove ops (snd (remove svc w))"

text \<open>The part of the contract that any mixture of strategies keeps: no call touches another service.\<close>

locale strategy_frame =
  fixes view :: "'w \<Rightarrow> cluster"
    and add remove :: "service \<Rightarrow> 'w \<Rightarrow> unit outcome \<times> 'w"
  assumes add_frame: "k \<noteq> service_key svc \<Longrightarrow> svcs (view (snd (add svc w))) k = svcs (view w) k"
    and remove_frame: "k \<noteq> service_key svc \<Longrightarrow> svcs (view (snd (remove svc w))) k = svcs (view w) k"
begin

lemma run_ops_frame:
  "k \<notin> op_key ` set ops \<Longrightarrow> svcs (view (run_ops add remove ops w)) k = svcs (view w) k"
proof (induction ops arbitrary: w)
  case (Cons x ops)
  then show ?case by (cases x) (simp_all add: add_frame remove_frame)
qed simp

end

locale expose_strategy = strategy_frame view add remove
  for view :: "'w \<Rightarrow> cluster" and add remove :: "service \<Rightarrow> 'w \<Rightarrow> unit outcome \<times> 'w" +
  fixes wf :: "'w \<Rightarrow> bool"
    and exposed :: "'w \<Rightarrow> 'w \<Rightarrow> service \<Rightarrow> service \<Rightarrow> bool"
    and hidden :: "service \<Rightarrow> bool"
  assumes add_exposes: "add svc w = (Ok (), w') \<Longrightarrow> svcs (view w) (service_key svc) = Some svc \<Longrightarrow> wf w \<Longrightarrow>
      \<exists>t. svcs (view w') (service_key svc) = Some t \<and> exposed w w' svc t"
    and remove_clears: "remove svc w = (Ok (), w') \<Longrightarrow> svcs (view w) (service_key svc) = Some svc \<Longrightarrow>
      \<exists>t. svcs (view w') (service_key svc) = Some t \<and> hidden t"
begin

text \<open>What an operation established of its service survives operations on other services.\<close>

lemma run_ops_add_survives:
  assumes "add svc w = (Ok (), w')" "svcs (view w) (service_key svc) = Some svc" "wf w"
    and "service_key svc \<notin> op_key ` set ops"
  shows "\<exists>t. svcs (view (run_ops add remove (OpAdd svc # ops) w)) (service_key svc) = Some t \<and> exposed w w' svc t"
  using add_exposes [OF assms(1-3)] run_ops_frame [OF assms(4)] assms(1) by simp

lemma run_ops_remove_survives:
  assumes "remove svc w = (Ok (), w')" "svcs (view w) (service_key svc) = Some svc"
    and "service_key svc \<notin> op_key ` set ops"
  shows "\<exists>t. svcs (view (run_ops add remove (OpRemove svc # ops) w)) (service_key svc) = Some t \<and> hidden t"
  using remove_clears [OF assms(1,2)] run_ops_frame [OF assms(3)] assms(1) by simp

end

text \<open>
  The tail shared by the strategies that patch the service: \<^verbatim>\<open>Remove\<close> clones the service, takes
  the annotations away and sends the patch.
\<close>

definition unannotated :: "service \<Rightarrow> bool" where
  "unannotated t \<longleftrightarrow> annotation t ExposeAnnotationKey = ''''"

definition patchRemove ::
  "('w, 'b) client \<Rightarrow> 'b golib \<Rightarrow> service \<Rightarrow> 'w \<Rightarrow> unit outcome \<times> 'w" where
  "patchRemove K L svc w =
     patchService K L ''failed to send patch'' svc (removeServiceAnnotation svc) w"

lemma removeServiceAnnotation_clears [simp]:
  "annotation (removeServiceAnnotation svc) ExposeAnnotationKey = ''''"
  by (simp add: annotation_removeServiceAnnotation)

context kube_server
begin

lemma patchRemove_clears:
  assumes "patchRemove K L svc w = (Ok (), w')" "svcs (view w) (service_key svc) = Some svc"
  shows "\<exists>t. svcs (view w') (service_key svc) = Some t \<and> unannotated t"
  using patchService_stored [OF assms(1) [unfolded patchRemove_def] assms(2)]
  by (auto simp: accepts_service_annotation unannotated_def)

end

context atomic_server
begin

lemma patchService_snd_frame:
  "k \<noteq> service_key svc \<Longrightarrow> svcs (view (snd (patchService K L msg svc clone w))) k = svcs (view w) k"
  using patchService_frame [of msg svc clone w] by (cases "patchService K L msg svc clone w") fastforce

lemma patchService_snd_others:
  "ings (view (snd (patchService K L msg svc clone w))) = ings (view w)"
  "cmaps (view (snd (patchService K L msg svc clone w))) = cmaps (view w)"
  "deps (view (snd (patchService K L msg svc clone w))) = deps (view w)"
  "rts (view (snd (patchService K L msg svc clone w))) = rts (view w)"
  "oauths (view (snd (patchService K L msg svc clone w))) = oauths (view w)"
proof -
  obtain r w' where w': "patchService K L msg svc clone w = (r, w')" by fastforce
  from patchService_frame [OF this] obtain t
    where "view w' = (view w)\<lparr>svcs := (svcs (view w))((Namespace svc, Name svc) := t)\<rparr>" ..
  with w' show "ings (view (snd (patchService K L msg svc clone w))) = ings (view w)"
    "cmaps (view (snd (patchService K L msg svc clone w))) = cmaps (view w)"
    "deps (view (snd (patchService K L msg svc clone w))) = deps (view w)"
    "rts (view (snd (patchService K L msg svc clone w))) = rts (view w)"
    "oauths (view (snd (patchService K L msg svc clone w))) = oauths (view w)"
    by simp_all
qed

lemma patchRemove_frame:
  "k \<noteq> service_key svc \<Longrightarrow> svcs (view (snd (patchRemove K L svc w))) k = svcs (view w) k"
  by (simp add: patchRemove_def patchService_snd_frame)

end

end
