(* ===== verification/LoadBalancer.thy ===== *)
theory LoadBalancer
  imports ExposeStrategy
begin

text \<open>
  \<^verbatim>\<open>exposestrategy/loadbalancer.go\<close>: a service is exposed by changing its type; the URL
  annotation follows once the provider has assigned an address.
\<close>

text \<open>
  \<^verbatim>\<open>api.Scheme.DeepCopy\<close> of a service is the service: the model passes values, so the clone
  shares nothing with the original.
\<close>

definition LoadBalancer_clone :: "service \<Rightarrow> service" where
  "LoadBalancer_clone svc =
     (let clone = svc\<lparr>ServiceType := ''LoadBalancer''\<rparr>
      in if LoadBalancerIP clone \<noteq> '''' then addServiceAnnotation clone (LoadBalancerIP clone)
         else clone)"

definition LoadBalancer_Add ::
  "('w, 'b) client \<Rightarrow> 'b golib \<Rightarrow> service \<Rightarrow> 'w \<Rightarrow> unit outcome \<times> 'w" where
  "LoadBalancer_Add K L svc w =
     patchService K L ''failed to send patch'' svc (LoadBalancer_clone svc) w"

definition LoadBalancer_Remove ::
  "('w, 'b) client \<Rightarrow> 'b golib \<Rightarrow> service \<Rightarrow> 'w \<Rightarrow> unit outcome \<times> 'w" where
  "LoadBalancer_Remove K L svc w = patchRemove K L svc w"

text \<open>What a stored service must look like after \<^verbatim>\<open>Add\<close>.\<close>

definition LoadBalancer_exposed :: "service \<Rightarrow> service \<Rightarrow> bool" where
  "LoadBalancer_exposed svc t \<longleftrightarrow>
     ServiceType t = ''LoadBalancer'' \<and>
     (LoadBalancerIP svc = '''' \<or> annotation svc ExposeHostNameAsAnnotationKey = ExposeAnnotationKey \<or>
      annotation t ExposeAnnotationKey =
        exposeURL_of svc (LoadBalancerIP svc) (findHttpProtocol svc (LoadBalancerIP svc)))"

lemma findHttpProtocol_ServiceType [simp]:
  "findHttpProtocol (svc\<lparr>ServiceType := ty\<rparr>) h = findHttpProtocol svc h"
  by (simp add: findHttpProtocol_def)

lemma exposeURL_of_ServiceType [simp]:
  "exposeURL_of (svc\<lparr>ServiceType := ty\<rparr>) h p = exposeURL_of svc h p"
  by (simp add: exposeURL_of_def)

lemma LoadBalancer_clone_exposed:
  "accepts_service (LoadBalancer_clone svc) t \<Longrightarrow> LoadBalancer_exposed svc t"
  by (auto simp: LoadBalancer_exposed_def LoadBalancer_clone_def addServiceAnnotation_def Let_def
      accepts_service_annotation annotation_addServiceAnnotationWithProtocol
      accepts_service_def [THEN iffD1] split: if_splits)

text \<open>A service the server accepted from \<^verbatim>\<open>Add\<close> is what a further \<^verbatim>\<open>Add\<close> asks for.\<close>

lemma LoadBalancer_clone_settled:
  assumes "plain_host_key svc" "accepts_service (LoadBalancer_clone svc) t"
  shows "LoadBalancer_clone t = t"
proof (cases "LoadBalancerIP svc = ''''")
  case True
  with assms(2) show ?thesis
    by (auto simp: LoadBalancer_clone_def Let_def accepts_service_def)
next
  case False
  let ?c = "svc\<lparr>ServiceType := ''LoadBalancer''\<rparr>"
  let ?p = "findHttpProtocol svc (LoadBalancerIP svc)"
  have clone: "LoadBalancer_clone svc =
      ?c\<lparr>Annotations := Some (annotate (mmake (Annotations svc)) (LoadBalancerIP svc) ?p)\<rparr>"
    using False
    by (simp add: LoadBalancer_clone_def Let_def addServiceAnnotation_def
        addServiceAnnotationWithProtocol_annotate)
  have t: "ServiceType t = ''LoadBalancer''" "LoadBalancerIP t = LoadBalancerIP svc"
    "list_all2 same_port (Ports svc) (Ports t)"
    "wire_map (Annotations t) =
       wire_map (Some (annotate (mmake (Annotations svc)) (LoadBalancerIP svc) ?p))"
    using assms(2) by (simp_all add: clone accepts_service_def same_meta_def)
  have "t\<lparr>ServiceType := ''LoadBalancer''\<rparr> = t" using t(1) by simp
  moreover have "findHttpProtocol t (LoadBalancerIP svc) = ?p"
    using t(3) by (rule same_ports_findHttpProtocol)
  moreover have "addServiceAnnotationWithProtocol t (LoadBalancerIP svc) ?p = t"
    using assms(1) t(4) by (rule accepted_annotation_fixed)
  ultimately show ?thesis
    using False t(2) by (simp add: LoadBalancer_clone_def Let_def addServiceAnnotation_def)
qed

context kube_server
begin

lemma LoadBalancer_Add_stored:
  assumes "LoadBalancer_Add K L svc w = (Ok (), w')" "svcs (view w) (service_key svc) = Some svc"
  shows "\<exists>t. svcs (view w') (service_key svc) = Some t \<and> accepts_service (LoadBalancer_clone svc) t"
  using patchService_stored [OF assms(1) [unfolded LoadBalancer_Add_def] assms(2)] by auto

end

sublocale atomic_server \<subseteq> lb: expose_strategy view "LoadBalancer_Add K L" "LoadBalancer_Remove K L"
    "\<lambda>_. True" "\<lambda>_ _. LoadBalancer_exposed" unannotated
proof
  show "\<exists>t. svcs (view w') (service_key svc) = Some t \<and> LoadBalancer_exposed svc t"
    if "LoadBalancer_Add K L svc w = (Ok (), w')" "svcs (view w) (service_key svc) = Some svc" for svc w w'
    using LoadBalancer_Add_stored [OF that] LoadBalancer_clone_exposed by blast
qed (simp_all add: LoadBalancer_Add_def LoadBalancer_Remove_def patchService_snd_frame
      patchRemove_frame patchRemove_clears)

context atomic_server
begin

lemmas LoadBalancer_run = lb.run_ops_add_survives [OF _ _ TrueI] lb.run_ops_remove_survives lb.run_ops_frame

end

text \<open>
  C11: a successful \<^verbatim>\<open>LoadBalancerStrategy.Add\<close> of a stored service leaves it stored with type
  \<^verbatim>\<open>LoadBalancer\<close> and, once the service has a load balancer address, with the URL annotation
  made from that address; a run of further operations on other services does not undo it.
\<close>

theorem LoadBalancer_Add_exposes:
  assumes "atomic_server K L view"
    and "LoadBalancer_Add K L svc w = (Ok (), w')"
    and "svcs (view w) (service_key svc) = Some svc"
    and "service_key svc \<notin> op_key ` set ops"
  shows "\<exists>t. svcs (view (run_ops (LoadBalancer_Add K L) (LoadBalancer_Remove K L) (OpAdd svc # ops) w))
       (service_key svc) = Some t \<and> LoadBalancer_exposed svc t"
  using assms(2-) by (rule atomic_server.LoadBalancer_run(1) [OF assms(1)])

definition lb_service :: service where
  "lb_service = example_service\<lparr>LoadBalancerIP := ''1.2.3.4''\<rparr>"

definition lb_state :: ref_state where
  "lb_state =
     \<lparr>ref_services = [((''dev'', ''web''), lb_service)], ref_ingresses = [], ref_configmaps = [],
      ref_deployments = [], ref_routes = [], ref_oauthclients = [], ref_nodes = [], ref_paths = []\<rparr>"

theorem LoadBalancer_Add_exposes_witness:
  "\<exists>t. svcs (ref_view (run_ops (LoadBalancer_Add ref_client ref_lib) (LoadBalancer_Remove ref_client ref_lib)
       [OpAdd lb_service] lb_state)) (''dev'', ''web'') = Some t \<and> LoadBalancer_exposed lb_service t"
proof -
  have stored: "svcs (ref_view lb_state) (service_key lb_service) = Some lb_service"
    by (simp add: ref_view_def lb_state_def lb_service_def example_service_def)
  have "fst (LoadBalancer_Add ref_client ref_lib lb_service lb_state) = Ok ()"
    by (simp add: LoadBalancer_Add_def patchService_def createPatch_def ref_lib_def ref_client_def
        lb_state_def lb_service_def example_service_def split: if_splits)
  then obtain w' where "LoadBalancer_Add ref_client ref_lib lb_service lb_state = (Ok (), w')"
    by (cases "LoadBalancer_Add ref_client ref_lib lb_service lb_state") simp
  from LoadBalancer_Add_exposes [OF ref.atomic_server_axioms this stored, of "[]"]
  show ?thesis by (simp add: lb_service_def example_service_def)
qed

text \<open>
  C12: \<^verbatim>\<open>LoadBalancerStrategy.Add\<close> settles: once it has succeeded, adding the service again in
  the form the server stored it sends no request at all, provided that \<^verbatim>\<open>fabric8.io/exposeHostNameAs\<close>
  of the service names neither the path annotation nor itself.
\<close>

theorem LoadBalancer_Add_settles:
  assumes "kube_server K L view"
    and "LoadBalancer_Add K L svc w = (Ok (), w')"
    and "svcs (view w) (service_key svc) = Some svc" "plain_host_key svc"
    and "svcs (view w') (service_key svc) = Some t" "encode L t = Inr e"
  shows "LoadBalancer_Add K L t w' = (Ok (), w')"
proof -
  have "accepts_service (LoadBalancer_clone svc) t"
    using kube_server.LoadBalancer_Add_stored [OF assms(1-3)] assms(5) by auto
  with assms(4) have "LoadBalancer_clone t = t" by (rule LoadBalancer_clone_settled)
  with assms(6) show ?thesis by (simp add: LoadBalancer_Add_def patchService_same)
qed

theorem LoadBalancer_Add_settles_witness:
  "\<exists>w' t. LoadBalancer_Add ref_client ref_lib lb_service lb_state = (Ok (), w') \<and>
     svcs (ref_view w') (''dev'', ''web'') = Some t \<and>
     LoadBalancer_Add ref_client ref_lib t w' = (Ok (), w')"
proof -
  have stored: "svcs (ref_view lb_state) (service_key lb_service) = Some lb_service"
    and plain: "plain_host_key lb_service"
    by (simp_all add: ref_view_def lb_state_def lb_service_def example_service_def plain_host_key_def)
  have "fst (LoadBalancer_Add ref_client ref_lib lb_service lb_state) = Ok ()"
    by (simp add: LoadBalancer_Add_def patchService_def createPatch_def ref_lib_def ref_client_def
        lb_state_def lb_service_def example_service_def split: if_splits)
  then obtain w' where add: "LoadBalancer_Add ref_client ref_lib lb_service lb_state = (Ok (), w')"
    by (cases "LoadBalancer_Add ref_client ref_lib lb_service lb_state") simp
  obtain t where t: "svcs (ref_view w') (service_key lb_service) = Some t"
    using ref.LoadBalancer_Add_stored [OF add stored] by blast
  have "encode ref_lib t = Inr (Doc t)" by (simp add: ref_lib_def)
  from LoadBalancer_Add_settles [OF ref.kube_server_axioms add stored plain t this] add t
  show ?thesis by (auto simp: lb_service_def example_service_def)
qed

end
