(* ===== verification/NodePort.thy ===== *)
theory NodePort
  imports LoadBalancer
begin

text \<open>
  \<^verbatim>\<open>exposestrategy/nodeport.go\<close>: a service with one port is exposed on a port of the only node,
  whose address is configured or discovered when the strategy is made.
\<close>

section \<open>Addresses\<close>

text \<open>
  \<^verbatim>\<open>net.ParseIP(s).String()\<close>: the first dot or colon decides between IPv4 and IPv6; a text
  that does not parse is the nil address, which prints as \<^verbatim>\<open><nil>\<close>. IPv6 texts are left to
  the library parameter.
\<close>

definition parseIPv4 :: "string \<Rightarrow> nat list option" where
  "parseIPv4 s =
     (let parts = Split s CHR ''.'';
          ns = map (\<lambda>p. if p = '''' then None else digits_value 0 p) parts
      in if length parts = 4 \<and> list_all (\<lambda>n. case n of None \<Rightarrow> False | Some v \<Rightarrow> v \<le> 255) ns
         then Some (map the ns) else None)"

definition ParseIP_String :: "'b golib \<Rightarrow> string \<Rightarrow> string" where
  "ParseIP_String L s =
     (case find (\<lambda>c. c = CHR ''.'' \<or> c = CHR '':'') s of
        None \<Rightarrow> ''<nil>''
      | Some c \<Rightarrow>
          if c = CHR ''.'' then
            (case parseIPv4 s of None \<Rightarrow> ''<nil>'' | Some ns \<Rightarrow> Join (map digits_of ns) ''.'')
          else ipv6_string L s)"

abbreviation ExternalIPLabel :: string where
  "ExternalIPLabel \<equiv> ''fabric8.io/externalIP''"

text \<open>
  \<^verbatim>\<open>getNodeHostIP\<close>: the addresses grouped by type, then the first external, legacy or internal
  one. The result is the printed address, since that is the only use of it.
\<close>

definition getNodeHostIP :: "'b golib \<Rightarrow> node \<Rightarrow> string outcome" where
  "getNodeHostIP L nd =
     (let addressMap = (\<lambda>ty. filter (\<lambda>a. AddressType a = ty) (Addresses nd))
      in case addressMap ''ExternalIP'' of
           a # _ \<Rightarrow> Ok (ParseIP_String L (Address a))
         | [] \<Rightarrow> (case addressMap ''LegacyHostIP'' of
             a # _ \<Rightarrow> Ok (ParseIP_String L (Address a))
           | [] \<Rightarrow> (case addressMap ''InternalIP'' of
               a # _ \<Rightarrow> Ok (ParseIP_String L (Address a))
             | [] \<Rightarrow> Err (ErrMsg ''host IP unknown''))))"


section \<open>The strategy\<close>

record node_port_strategy =
  nodeIP :: string

definition NewNodePortStrategy ::
  "('w, 'b) client \<Rightarrow> 'b golib \<Rightarrow> string \<Rightarrow> 'w \<Rightarrow> node_port_strategy outcome" where
  "NewNodePortStrategy K L ip w =
     (if ip \<noteq> '''' then Ok \<lparr>nodeIP = ip\<rparr>
      else case nodes_list K None w of
          (_, Some e) \<Rightarrow> Err (WithMessage ''failed to list nodes'' (ApiErr e))
        | ([n], None) \<Rightarrow>
            (let ip' = annotation n ExternalIPLabel
             in if ip' \<noteq> '''' then Ok \<lparr>nodeIP = ip'\<rparr>
                else case getNodeHostIP L n of
                    Ok addr \<Rightarrow> Ok \<lparr>nodeIP = addr\<rparr>
                  | Err e \<Rightarrow> Err (WithMessage ''cannot discover node IP'' e)
                  | Panic p \<Rightarrow> Panic p)
        | (l, None) \<Rightarrow>
            Err (ErrMsg (''node port strategy can only be used with single node clusters - found '' @
              Itoa (int (length l)) @ '' nodes'')))"

text \<open>The clone \<^verbatim>\<open>Add\<close> makes of a service whose only port is \<open>p\<close>.\<close>

definition NodePort_clone :: "node_port_strategy \<Rightarrow> service \<Rightarrow> service_port \<Rightarrow> service" where
  "NodePort_clone s svc p =
     (let clone = svc\<lparr>ServiceType := ''NodePort''\<rparr>;
          portInt = sint (NodePort p);
          hostName = JoinHostPort (nodeIP s) (Itoa portInt);
          clone = (if portInt > 0 then addServiceAnnotation clone hostName else clone)
      in clone\<lparr>ExternalIPs := []\<rparr>)"

definition NodePort_Add ::
  "('w, 'b) client \<Rightarrow> 'b golib \<Rightarrow> node_port_strategy \<Rightarrow> service \<Rightarrow> 'w \<Rightarrow> unit outcome \<times> 'w" where
  "NodePort_Add K L s svc w =
     (case Ports svc of
        [] \<Rightarrow> (Err (ErrMsg (''service '' @ Namespace svc @ ''/'' @ Name svc @
            '' has no ports specified. Node port strategy requires a node port'')), w)
      | [port] \<Rightarrow>
          patchService K L (''failed to send patch for '' @ Namespace svc @ ''/'' @ Name svc) svc
            (NodePort_clone s svc port) w
      | _ \<Rightarrow> (Err (ErrMsg (''service '' @ Namespace svc @ ''/'' @ Name svc @
            '' has multiple ports specified. Node port strategy can only be used with single port services'')), w))"

definition NodePort_Remove ::
  "('w, 'b) client \<Rightarrow> 'b golib \<Rightarrow> node_port_strategy \<Rightarrow> service \<Rightarrow> 'w \<Rightarrow> unit outcome \<times> 'w" where
  "NodePort_Remove K L s svc w = patchRemove K L svc w"

definition NodePort_exposed :: "node_port_strategy \<Rightarrow> service \<Rightarrow> service \<Rightarrow> bool" where
  "NodePort_exposed s svc t \<longleftrightarrow>
     ServiceType t = ''NodePort'' \<and> ExternalIPs t = [] \<and>
     (\<exists>p. Ports svc = [p] \<and>
       (let h = JoinHostPort (nodeIP s) (Itoa (sint (NodePort p))) in
        sint (NodePort p) \<le> 0 \<or>
        annotation svc ExposeHostNameAsAnnotationKey = ExposeAnnotationKey \<or>
        annotation t ExposeAnnotationKey = exposeURL_of svc h (findHttpProtocol svc h)))"

lemma NodePort_clone_exposed:
  "Ports svc = [p] \<Longrightarrow> accepts_service (NodePort_clone s svc p) t \<Longrightarrow> NodePort_exposed s svc t"
  by (auto simp: NodePort_exposed_def NodePort_clone_def addServiceAnnotation_def Let_def
      accepts_service_annotation annotation_addServiceAnnotationWithProtocol
      accepts_service_def [THEN iffD1] split: if_splits)

lemma NodePort_Add_single: "fst (NodePort_Add K L s svc w) = Ok () \<Longrightarrow> \<exists>p. Ports svc = [p]"
  by (auto simp: NodePort_Add_def split: list.splits)

context kube_server
begin

lemma NodePort_Add_stored:
  assumes "NodePort_Add K L s svc w = (Ok (), w')" "svcs (view w) (service_key svc) = Some svc"
  shows "\<exists>t. svcs (view w') (service_key svc) = Some t \<and> NodePort_exposed s svc t"
proof -
  obtain p where p: "Ports svc = [p]" using NodePort_Add_single [of K L s svc w] assms(1) by auto
  with assms(1) have "patchService K L (''failed to send patch for '' @ Namespace svc @ ''/'' @ Name svc)
      svc (NodePort_clone s svc p) w = (Ok (), w')"
    by (simp add: NodePort_Add_def)
  from patchService_stored [OF this assms(2)] NodePort_clone_exposed [OF p] show ?thesis by auto
qed

end

text \<open>
  A service with an allocated node port that the server accepted from \<^verbatim>\<open>Add\<close> is what a further \<^verbatim>\<open>Add\<close>
  asks for.
\<close>

lemma NodePort_clone_settled:
  assumes "plain_host_key svc" "Ports svc = [p]" "NodePort p \<noteq> 0" "accepts_service (NodePort_clone s svc p) t"
  shows "\<exists>q. Ports t = [q] \<and> NodePort_clone s t q = t"
proof -
  let ?h = "JoinHostPort (nodeIP s) (Itoa (sint (NodePort p)))"
  let ?p = "findHttpProtocol svc ?h"
  have ports: "list_all2 same_port (Ports svc) (Ports t)" and ty: "ServiceType t = ''NodePort''" and ip: "ExternalIPs t = []"
    using assms(4) by (auto simp: accepts_service_def NodePort_clone_def addServiceAnnotation_def
        addServiceAnnotationWithProtocol_annotate Let_def split: if_splits)
  from ports assms(2,3) obtain q where q: "Ports t = [q]" "NodePort q = NodePort p"
    by (auto simp: list_all2_Cons1 same_port_def)
  have "addServiceAnnotation t ?h = t" if "sint (NodePort p) > 0"
  proof -
    have "wire_map (Annotations t) = wire_map (Some (annotate (mmake (Annotations svc)) ?h ?p))"
      using that assms(4) by (simp add: accepts_service_def same_meta_def NodePort_clone_def addServiceAnnotation_def
          addServiceAnnotationWithProtocol_annotate Let_def)
    from accepted_annotation_fixed [OF assms(1) this] same_ports_findHttpProtocol [OF ports] show ?thesis
      by (simp add: addServiceAnnotation_def)
  qed
  moreover have "t\<lparr>ServiceType := ''NodePort''\<rparr> = t" "t\<lparr>ExternalIPs := []\<rparr> = t" using ty ip by simp_all
  ultimately have "NodePort_clone s t q = t" using q(2) by (simp add: NodePort_clone_def Let_def)
  with q show ?thesis by blast
qed

sublocale atomic_server \<subseteq> np: expose_strategy view "NodePort_Add K L s" "NodePort_Remove K L s"
    "\<lambda>_. True" "\<lambda>_ _. NodePort_exposed s" unannotated for s
proof
  show "svcs (view (snd (NodePort_Add K L s svc w))) k = svcs (view w) k" if "k \<noteq> service_key svc" for k svc w
    using that by (auto simp: NodePort_Add_def patchService_snd_frame split: list.splits)
qed (simp_all add: NodePort_Add_stored NodePort_Remove_def patchRemove_frame patchRemove_clears)

context atomic_server
begin

lemmas NodePort_run = np.run_ops_add_survives [OF _ _ TrueI] np.run_ops_remove_survives np.run_ops_frame

end

text \<open>
  \<^verbatim>\<open>NodePortStrategy.Add\<close> refuses a service that does not have exactly one port, and then it
  has sent nothing; with exactly one port it never panics.
\<close>

theorem NodePort_Add_port_check:
  "if length (Ports svc) = 1 then \<forall>msg. fst (NodePort_Add K L s svc w) \<noteq> Panic msg
   else \<exists>msg. NodePort_Add K L s svc w = (Err (ErrMsg msg), w)"
  by (auto simp: NodePort_Add_def length_Suc_conv split: list.splits)

text \<open>
  C13: a successful \<^verbatim>\<open>NodePortStrategy.Add\<close> of a stored service leaves it stored with type
  \<^verbatim>\<open>NodePort\<close>, no external IPs and, when a node port is allocated, the URL of the node's address
  and that port, however many operations on other services follow.
\<close>

theorem NodePort_Add_exposes:
  assumes "atomic_server K L view"
    and "NodePort_Add K L s svc w = (Ok (), w')"
    and "svcs (view w) (service_key svc) = Some svc"
    and "service_key svc \<notin> op_key ` set ops"
  shows "\<exists>t. svcs (view (run_ops (NodePort_Add K L s) (NodePort_Remove K L s) (OpAdd svc # ops) w))
       (service_key svc) = Some t \<and> NodePort_exposed s svc t"
  using assms(2-) by (rule atomic_server.NodePort_run(1) [OF assms(1)])

definition np_service :: service where
  "np_service = example_service\<lparr>Ports :=
     [\<lparr>PortName = ''http'', Port = 80, TargetPort = FromInt 80, NodePort = 30080\<rparr>]\<rparr>"

definition np_state :: ref_state where
  "np_state = lb_state\<lparr>ref_services := [((''dev'', ''web''), np_service)]\<rparr>"

theorem NodePort_Add_exposes_witness:
  "\<exists>t. svcs (ref_view (run_ops (NodePort_Add ref_client ref_lib \<lparr>nodeIP = ''10.0.0.9''\<rparr>)
       (NodePort_Remove ref_client ref_lib \<lparr>nodeIP = ''10.0.0.9''\<rparr>) [OpAdd np_service] np_state))
       (''dev'', ''web'') = Some t \<and> NodePort_exposed \<lparr>nodeIP = ''10.0.0.9''\<rparr> np_service t"
proof -
  let ?s = "\<lparr>nodeIP = ''10.0.0.9''\<rparr>"
  have stored: "svcs (ref_view np_state) (service_key np_service) = Some np_service"
    by (simp add: ref_view_def np_state_def np_service_def example_service_def)
  have "fst (NodePort_Add ref_client ref_lib ?s np_service np_state) = Ok ()"
    by (simp add: NodePort_Add_def patchService_def createPatch_def ref_lib_def ref_client_def
        np_state_def np_service_def example_service_def split: if_splits)
  then obtain w' where "NodePort_Add ref_client ref_lib ?s np_service np_state = (Ok (), w')"
    by (cases "NodePort_Add ref_client ref_lib ?s np_service np_state") simp
  from NodePort_Add_exposes [OF ref.atomic_server_axioms this stored, of "[]"]
  show ?thesis by (simp add: np_service_def example_service_def)
qed

text \<open>
  An address is discovered only on a cluster of one node, from the node's annotation if it has
  one and otherwise by address type, external before legacy before internal, first of its type.
\<close>

theorem NewNodePortStrategy_discovers:
  assumes "nodes_list K None w = ([n], None)" "annotation n ExternalIPLabel = ''''"
  shows "NewNodePortStrategy K L '''' w =
    (case find (\<lambda>ty. ty \<in> AddressType ` set (Addresses n)) [''ExternalIP'', ''LegacyHostIP'', ''InternalIP''] of
       None \<Rightarrow> Err (WithMessage ''cannot discover node IP'' (ErrMsg ''host IP unknown''))
     | Some ty \<Rightarrow> Ok \<lparr>nodeIP = ParseIP_String L (Address (hd (filter (\<lambda>a. AddressType a = ty) (Addresses n))))\<rparr>)"
proof -
  have none: "filter (\<lambda>a. AddressType a = ty) (Addresses n) = [] \<longleftrightarrow> ty \<notin> AddressType ` set (Addresses n)" for ty
    by (auto simp: filter_empty_conv)
  have some: "filter (\<lambda>a. AddressType a = ty) (Addresses n) = x # xs \<Longrightarrow> ty \<in> AddressType ` set (Addresses n)" for ty x xs
    using none [of ty] by force
  show ?thesis
    using assms by (auto simp: NewNodePortStrategy_def getNodeHostIP_def Let_def none dest: some split: list.splits)
qed

definition example_node :: node where
  "example_node =
     \<lparr>Name = ''n1'', Namespace = '''', UID = '''', ResourceVersion = '''', Labels = None, Annotations = None,
      OwnerReferences = [], ExternalID = '''',
      Addresses = [\<lparr>AddressType = ''InternalIP'', Address = ''10.0.0.1''\<rparr>,
        \<lparr>AddressType = ''ExternalIP'', Address = ''010.1.1.1''\<rparr>]\<rparr>"

theorem NewNodePortStrategy_discovers_witness:
  "NewNodePortStrategy ref_client ref_lib '''' (lb_state\<lparr>ref_nodes := [example_node]\<rparr>) =
     Ok \<lparr>nodeIP = ''10.1.1.1''\<rparr>"
proof -
  have "nodes_list ref_client None (lb_state\<lparr>ref_nodes := [example_node]\<rparr>) = ([example_node], None)"
    by (simp add: ref_client_def)
  from NewNodePortStrategy_discovers [OF this, of ref_lib] show ?thesis
    by (simp add: example_node_def ParseIP_String_def parseIPv4_def Let_def is_digit_def digits_of.simps)
qed

end
