(* ===== verification/AutoDetect.thy ===== *)
theory AutoDetect
  imports Utils
begin

text \<open>
  The detection functions of \<^verbatim>\<open>exposestrategy/auto.go\<close>: which strategy a cluster needs, and the
  domain to use when none is configured.
\<close>

abbreviation providedNodeIP :: string where
  "providedNodeIP \<equiv> ''kubernetes.io/provided-node-ip''"

text \<open>The loop over the addresses of a node; the last argument is the fallback found so far.\<close>

fun externalIP_scan :: "node_address list \<Rightarrow> string \<Rightarrow> string outcome" where
  "externalIP_scan [] fallback =
     (if fallback \<noteq> '''' then Ok fallback
      else Err (ErrMsg ''no node ExternalIP or LegacyHostIP found''))"
| "externalIP_scan (addr # addrs) fallback =
     (if AddressType addr = ''ExternalIP'' then Ok (Address addr)
      else let fallback1 = (if fallback = '''' \<and> AddressType addr = ''LegacyHostIP'' then Address addr else fallback);
               fallback2 = (if fallback1 = '''' \<and> AddressType addr = ''InternalIP'' then Address addr else fallback1)
           in externalIP_scan addrs fallback2)"

definition getExternalIP :: "'b golib \<Rightarrow> node \<Rightarrow> string outcome" where
  "getExternalIP L nd =
     (case (case Annotations nd of
              None \<Rightarrow> None
            | Some ann \<Rightarrow> find (\<lambda>(k, v). v \<noteq> '''' \<and> HasSuffix k providedNodeIP) (range_order L ann)) of
        Some (_, v) \<Rightarrow> Ok v
      | None \<Rightarrow> externalIP_scan (Addresses nd) '''')"

abbreviation ingress_rule :: string where
  "ingress_rule \<equiv> ''ingress''"

abbreviation route_rule :: string where
  "route_rule \<equiv> ''route''"

abbreviation domainExt :: string where
  "domainExt \<equiv> ''.nip.io''"

abbreviation stackpointNS :: string where
  "stackpointNS \<equiv> ''stackpoint-system''"

abbreviation stackpointHAProxy :: string where
  "stackpointHAProxy \<equiv> ''spc-balancer''"

abbreviation stackpointIPEnvVar :: string where
  "stackpointIPEnvVar \<equiv> ''BALANCER_IP''"

definition getAutoDefaultExposeRule :: "('w, 'b) client \<Rightarrow> 'b golib \<Rightarrow> 'w \<Rightarrow> string outcome" where
  "getAutoDefaultExposeRule K L w =
     (case typeOfMaster K L w of
        Ok t \<Rightarrow> Ok (if t = openShift then route_rule else ingress_rule)
      | Err e \<Rightarrow> Err (WithMessage ''failed to get type of master'' e)
      | Panic p \<Rightarrow> Panic p)"

definition nip_domain :: "string outcome \<Rightarrow> string outcome" where
  "nip_domain ip = outcome_bind ip (\<lambda>ip. Ok (ip @ domainExt))"

text \<open>
  The address in the environment of the stackpoint proxy; a pod that cannot be read is the empty
  pod.
\<close>

definition stackpointIP :: "('w, 'b) client \<Rightarrow> 'w \<Rightarrow> string option" where
  "stackpointIP K w =
     (let containers = (case pods_get K stackpointNS stackpointHAProxy w of
            Inl _ \<Rightarrow> [] | Inr pod \<Rightarrow> PodContainers pod);
          envs = concat (map Env (filter (\<lambda>c. ContainerName c = stackpointHAProxy) containers))
      in map_option EnvValue (find (\<lambda>e. EnvName e = stackpointIPEnvVar) envs))"

text \<open>
  The error of the second listing, by label, is not looked at; its items are.
\<close>

definition getAutoDefaultDomain :: "('w, 'b) client \<Rightarrow> 'b golib \<Rightarrow> 'w \<Rightarrow> string outcome" where
  "getAutoDefaultDomain K L w =
     (case nodes_list K None w of
        (_, Some e) \<Rightarrow> Err (WithMessage ''failed to find any nodes'' (ApiErr e))
      | (nodes, None) \<Rightarrow>
          if length nodes = 1 \<and> (Name (hd nodes) = ''minishift'' \<or> Name (hd nodes) = ''minikube'')
          then nip_domain (getExternalIP L (hd nodes))
          else
            let labelled = fst (nodes_list K (Some (''fabric8.io/externalIP'', ''true'')) w)
            in if length labelled = 1 then nip_domain (getExternalIP L (hd labelled))
               else case stackpointIP K w of
                   Some v \<Rightarrow> Ok (v @ domainExt)
                 | None \<Rightarrow> Err (ErrMsg (''no known automatic ways to get an external ip to use with nip.  Please configure '' @
                     ''exposecontroller configmap manually see https://github.com/jenkins-x/exposecontroller#configuration'')))"


section \<open>Properties\<close>

lemma externalIP_scan_external:
  assumes "find (\<lambda>a. AddressType a = ''ExternalIP'') addrs = Some a"
  shows "externalIP_scan addrs fb = Ok (Address a)"
  using assms by (induction addrs fb rule: externalIP_scan.induct) (auto simp: Let_def split: if_splits)

lemma externalIP_scan_fallback:
  assumes "find (\<lambda>a. AddressType a = ''ExternalIP'') addrs = None"
  shows "externalIP_scan addrs fb =
     (if fb \<noteq> '''' then Ok fb
      else case find (\<lambda>a. AddressType a \<in> {''LegacyHostIP'', ''InternalIP''} \<and> Address a \<noteq> '''') addrs of
          Some a \<Rightarrow> Ok (Address a)
        | None \<Rightarrow> Err (ErrMsg ''no node ExternalIP or LegacyHostIP found''))"
  using assms by (induction addrs fb rule: externalIP_scan.induct) (auto simp: Let_def split: if_splits)

lemma find_provided:
  assumes "range_ok L" "fmlookup m k = Some v" "v \<noteq> ''''" "HasSuffix k providedNodeIP"
    and "\<forall>k' v'. fmlookup m k' = Some v' \<longrightarrow> HasSuffix k' providedNodeIP \<longrightarrow> v' = '''' \<or> v' = v"
  shows "\<exists>k'. find (\<lambda>(k, v). v \<noteq> '''' \<and> HasSuffix k providedNodeIP) (range_order L m) = Some (k', v)"
proof -
  have kv: "(k', v') \<in> set (range_order L m) \<longleftrightarrow> fmlookup m k' = Some v'" for k' v'
    using assms(1) by (metis map_of_eq_Some_iff range_ok_def)
  show ?thesis
  proof (cases "find (\<lambda>(k, v). v \<noteq> '''' \<and> HasSuffix k providedNodeIP) (range_order L m)")
    case None
    with kv [of k v] assms(2-4) show ?thesis by (auto simp: find_None_iff)
  next
    case (Some kv')
    obtain k' v' where kv': "kv' = (k', v')" by (cases kv')
    with Some have "v' \<noteq> ''''" "HasSuffix k' providedNodeIP" "(k', v') \<in> set (range_order L m)"
      by (auto simp: find_Some_iff set_conv_nth)
    with assms(5) kv have "v' = v" by blast
    with Some kv' show ?thesis by simp
  qed
qed

text \<open>
  The address \<^verbatim>\<open>getExternalIP\<close> finds for a node without a provided-node-ip annotation: the
  first external address; if there is none, the first non-empty legacy or internal one; if there is
  none either, an error.
\<close>

theorem getExternalIP_addresses:
  assumes "Annotations nd = None"
  shows "getExternalIP L nd =
    (case find (\<lambda>a. AddressType a = ''ExternalIP'') (Addresses nd) of
       Some a \<Rightarrow> Ok (Address a)
     | None \<Rightarrow> (case find (\<lambda>a. AddressType a \<in> {''LegacyHostIP'', ''InternalIP''} \<and> Address a \<noteq> '''') (Addresses nd) of
           Some a \<Rightarrow> Ok (Address a)
         | None \<Rightarrow> Err (ErrMsg ''no node ExternalIP or LegacyHostIP found'')))"
  using assms by (auto simp: getExternalIP_def externalIP_scan_external externalIP_scan_fallback split: option.splits)

definition detect_node :: node where
  "detect_node =
     \<lparr>Name = ''minikube'', Namespace = '''', UID = '''', ResourceVersion = '''', Labels = None,
      Annotations = None, OwnerReferences = [], ExternalID = '''',
      Addresses = [\<lparr>AddressType = ''InternalIP'', Address = ''10.0.0.1''\<rparr>]\<rparr>"

theorem getExternalIP_addresses_witness: "getExternalIP ref_lib detect_node = Ok ''10.0.0.1''"
  using getExternalIP_addresses [of detect_node ref_lib] by (simp add: detect_node_def)

text \<open>
  A provided-node-ip annotation wins over the addresses, and although Go visits the
  annotations in an unspecified order, the answer does not depend on it as long as the annotations
  ending in that key do not disagree.
\<close>

theorem getExternalIP_provided:
  assumes "range_ok L" "Annotations nd = Some m"
    and "fmlookup m k = Some v" "v \<noteq> ''''" "HasSuffix k providedNodeIP"
    and "\<forall>k' v'. fmlookup m k' = Some v' \<longrightarrow> HasSuffix k' providedNodeIP \<longrightarrow> v' = '''' \<or> v' = v"
  shows "getExternalIP L nd = Ok v"
  using find_provided [OF assms(1,3-6)] assms(2) by (auto simp: getExternalIP_def)

theorem getExternalIP_provided_witness:
  "getExternalIP ref_lib (detect_node\<lparr>Annotations :=
     Some (fmupd ''alpha.kubernetes.io/provided-node-ip'' ''1.2.3.4'' (fmupd ''x'' ''y'' fmempty))\<rparr>) = Ok ''1.2.3.4''"
proof -
  let ?m = "fmupd ''alpha.kubernetes.io/provided-node-ip'' ''1.2.3.4'' (fmupd ''x'' ''y'' fmempty)"
  have "\<not> HasSuffix ''x'' providedNodeIP" by (simp add: HasSuffix_rev)
  then have "\<forall>k' v'. fmlookup ?m k' = Some v' \<longrightarrow> HasSuffix k' providedNodeIP \<longrightarrow> v' = '''' \<or> v' = ''1.2.3.4''"
    by auto
  moreover have "fmlookup ?m ''alpha.kubernetes.io/provided-node-ip'' = Some ''1.2.3.4''" by simp
  moreover have "HasSuffix ''alpha.kubernetes.io/provided-node-ip'' providedNodeIP" by (simp add: HasSuffix_rev)
  ultimately show ?thesis
    by (intro getExternalIP_provided [OF range_ok_ref_lib, where m = ?m]) simp_all
qed

end
