(* ===== verification/Ingress.thy ===== *)
theory Ingress
  imports NodePort AutoDetect
begin

text \<open>
  \<^verbatim>\<open>exposestrategy/ingress.go\<close>: the strategy that creates or extends an Ingress for a service
  and annotates the service with the URL. The naming of the ingress and the choice of the port are
  shared with the ambassador strategy.
\<close>

section \<open>Names\<close>

text \<open>The name without the release prefix (\<^verbatim>\<open>Remove\<close> uses this part only).\<close>

definition releaseName :: "service \<Rightarrow> string" where
  "releaseName svc =
     (if label svc ''release'' \<noteq> '''' then Replace1 (Name svc) (label svc ''release'' @ ''-'') ''''
      else Name svc)"

definition appName_of :: "service \<Rightarrow> string" where
  "appName_of svc =
     (let appName = annotation svc ''fabric8.io/ingress.name''
      in if appName = '''' then releaseName svc else appName)"

definition hostName_of :: "service \<Rightarrow> string" where
  "hostName_of svc =
     (let hostName = annotation svc ''fabric8.io/host.name''
      in if hostName = '''' then appName_of svc else hostName)"

abbreviation PathModeUsePath :: string where
  "PathModeUsePath \<equiv> ''path''"


section \<open>The port\<close>

text \<open>
  The port to expose, as text: the annotated one when it is a number among the service's ports,
  the first port otherwise. A service without ports makes the index expression panic.
\<close>

definition exposePort_of :: "service \<Rightarrow> string outcome" where
  "exposePort_of svc =
     (let annotated = annotation svc ExposePortAnnotationKey;
          exposePort =
            (if annotated \<noteq> '''' then
               (case Atoi annotated of
                  Some port \<Rightarrow> if \<exists>p \<in> set (Ports svc). port = sint (Port p) then annotated else ''''
                | None \<Rightarrow> '''')
             else '''')
      in if exposePort = '''' then
           (case Ports svc of
              [] \<Rightarrow> Panic ''index out of range''
            | p # _ \<Rightarrow> Ok (Itoa (sint (Port p))))
         else Ok exposePort)"

definition servicePort_of :: "service \<Rightarrow> int outcome" where
  "servicePort_of svc =
     outcome_bind (exposePort_of svc) (\<lambda>exposePort.
       case Atoi exposePort of
         None \<Rightarrow> Err (WithMessage (''failed to convert the exposed port '' @ [CHR 0x27] @ exposePort @ [CHR 0x27] @ '' to int'')
                   (ErrMsg ''invalid syntax''))
       | Some port \<Rightarrow> Ok port)"


section \<open>The strategy\<close>

record ingress_strategy =
  ig_domain :: string
  ig_internalDomain :: string
  ig_tlsSecretName :: string
  ig_tlsUseWildcard :: bool
  ig_http :: bool
  ig_tlsAcme :: bool
  ig_urltemplate :: string
  ig_pathMode :: string
  ig_ingressClass :: string

text \<open>
  The part of \<^verbatim>\<open>NewIngressStrategy\<close> and \<^verbatim>\<open>NewAmbassadorStrategy\<close> before the struct is
  filled: refuse OpenShift, find the domain if none is configured, turn the URL template into a
  format. The result is the domain and the format.
\<close>

definition wildcard_setup ::
  "('w, 'b) client \<Rightarrow> 'b golib \<Rightarrow> string \<Rightarrow> string \<Rightarrow> 'w \<Rightarrow> (string \<times> string) outcome" where
  "wildcard_setup K L domain urltemplate w =
     (case typeOfMaster K L w of
        Err e \<Rightarrow> Err (WithMessage ''could not create new ingress strategy'' e)
      | Panic p \<Rightarrow> Panic p
      | Ok t \<Rightarrow>
          if t = openShift
          then Err (ErrMsg ''ingress strategy is not supported on OpenShift, please use Route strategy'')
          else
            (case (if domain = '''' then getAutoDefaultDomain K L w else Ok domain) of
               Err e \<Rightarrow> Err (WithMessage ''failed to get a domain'' e)
             | Panic p \<Rightarrow> Panic p
             | Ok domain' \<Rightarrow>
                 (case getURLFormat L urltemplate of
                    Err e \<Rightarrow> Err (WithMessage ''failed to get a url format'' e)
                  | Panic p \<Rightarrow> Panic p
                  | Ok urlformat \<Rightarrow> Ok (domain', urlformat))))"

definition NewIngressStrategy ::
  "('w, 'b) client \<Rightarrow> 'b golib \<Rightarrow> string \<Rightarrow> string \<Rightarrow> bool \<Rightarrow> bool \<Rightarrow> string \<Rightarrow> bool \<Rightarrow> string \<Rightarrow> string \<Rightarrow> string \<Rightarrow>
   'w \<Rightarrow> ingress_strategy outcome" where
  "NewIngressStrategy K L domain internalDomain http tlsAcme tlsSecretName tlsUseWildcard urltemplate
       pathMode ingressClass w =
     outcome_bind (wildcard_setup K L domain urltemplate w) (\<lambda>(domain', urlformat).
       Ok \<lparr>ig_domain = domain', ig_internalDomain = internalDomain, ig_tlsSecretName = tlsSecretName,
           ig_tlsUseWildcard = tlsUseWildcard, ig_http = http, ig_tlsAcme = tlsAcme,
           ig_urltemplate = urlformat, ig_pathMode = pathMode, ig_ingressClass = ingressClass\<rparr>)"

definition Ingress_isTLSEnabled :: "ingress_strategy \<Rightarrow> service \<Rightarrow> bool" where
  "Ingress_isTLSEnabled s svc \<longleftrightarrow>
     annotation svc ''jenkins-x.io/skip.tls'' \<noteq> ''true'' \<and> (ig_tlsSecretName s \<noteq> '''' \<or> ig_tlsAcme s)"

text \<open>What the first part of \<^verbatim>\<open>Add\<close> computes from the service and the configuration.\<close>

record ingress_target =
  tg_hostName :: string
  tg_tlsHostName :: string
  tg_fullHostName :: string
  tg_path :: string
  tg_pathMode :: string

definition ingress_target_of :: "'b golib \<Rightarrow> ingress_strategy \<Rightarrow> service \<Rightarrow> ingress_target" where
  "ingress_target_of L s svc =
     (let domain = (if annotation svc ''fabric8.io/use.internal.domain'' = ''true''
                    then ig_internalDomain s else ig_domain s);
          hostName = Sprintf (sprintf_rest L) (ig_urltemplate s) [hostName_of svc, Namespace svc, domain];
          tlsHostName = (if ig_tlsUseWildcard s then ''*.'' @ domain else hostName);
          path = annotation svc ''fabric8.io/ingress.path'';
          mode = annotation svc ''fabric8.io/path.mode'';
          pathMode = (if mode = '''' then ig_pathMode s else mode)
      in if pathMode = PathModeUsePath then
           (let suffix = (if path = '''' then ''/'' else path);
                path' = UrlJoin [''/'', Namespace svc, appName_of svc, suffix]
            in \<lparr>tg_hostName = domain, tg_tlsHostName = tlsHostName,
                tg_fullHostName = UrlJoin [domain, path'], tg_path = path', tg_pathMode = pathMode\<rparr>)
         else \<lparr>tg_hostName = hostName, tg_tlsHostName = tlsHostName, tg_fullHostName = hostName,
               tg_path = path, tg_pathMode = pathMode\<rparr>)"


section \<open>The ingress object\<close>

definition new_ingress :: "service \<Rightarrow> ingress" where
  "new_ingress svc =
     \<lparr>Name = appName_of svc, Namespace = Namespace svc, UID = '''', ResourceVersion = '''', Labels = None,
      Annotations = None, OwnerReferences = [], Rules = None, TLS = []\<rparr>"

definition ingress_labels :: "ingress \<Rightarrow> gomap" where
  "ingress_labels i =
     (case Labels i of None \<Rightarrow> Some (fmupd ''provider'' ''fabric8'' fmempty) | Some m \<Rightarrow> Some m)"

definition ingress_owners :: "service \<Rightarrow> ingress \<Rightarrow> owner_reference list" where
  "ingress_owners svc i =
     (if \<exists>r \<in> set (OwnerReferences i). OwnerUID r = UID svc then OwnerReferences i
      else OwnerReferences i @
        [\<lparr>OwnerAPIVersion = ''v1'', OwnerKind = ''Service'', OwnerName = Name svc, OwnerUID = UID svc\<rparr>])"

text \<open>
  The lines of \<^verbatim>\<open>fabric8.io/ingress.annotations\<close>, each cut at its first colon; a line without
  one makes the index expression panic.
\<close>

fun ingress_extra_annotations ::
  "string list \<Rightarrow> (string, string) fmap \<Rightarrow> (string, string) fmap outcome" where
  "ingress_extra_annotations [] m = Ok m"
| "ingress_extra_annotations (element # elements) m =
     (case SplitN2 element CHR '':'' of
        key # value # _ \<Rightarrow> ingress_extra_annotations elements (fmupd key (TrimSpace value) m)
      | _ \<Rightarrow> Panic ''index out of range'')"

abbreviation ingressClassKey :: string where
  "ingressClassKey \<equiv> ''kubernetes.io/ingress.class''"

abbreviation nginxIngressClassKey :: string where
  "nginxIngressClassKey \<equiv> ''nginx.ingress.kubernetes.io/ingress.class''"

definition ingress_class_annotations ::
  "ingress_strategy \<Rightarrow> string \<Rightarrow> (string, string) fmap \<Rightarrow> (string, string) fmap" where
  "ingress_class_annotations s pathMode m =
     (let m1 = (if ig_ingressClass s \<noteq> ''''
                then fmupd nginxIngressClassKey (ig_ingressClass s) (fmupd ingressClassKey (ig_ingressClass s) m)
                else m);
          m2 = (if pathMode = PathModeUsePath \<and> fget m1 ingressClassKey = ''''
                then fmupd ingressClassKey ''nginx'' m1 else m1);
          m3 = (if pathMode = PathModeUsePath \<and> fget m2 nginxIngressClassKey = ''''
                then fmupd nginxIngressClassKey ''nginx'' m2 else m2)
      in if ig_tlsAcme s then fmupd ''kubernetes.io/tls-acme'' ''true'' m3 else m3)"

definition ingress_annotations ::
  "ingress_strategy \<Rightarrow> service \<Rightarrow> string \<Rightarrow> ingress \<Rightarrow> (string, string) fmap outcome" where
  "ingress_annotations s svc pathMode i =
     (let m = (case Annotations i of
                 None \<Rightarrow> fmupd ''fabric8.io/generated-by'' ''exposecontroller'' fmempty
               | Some m \<Rightarrow> m);
          extra = annotation svc ''fabric8.io/ingress.annotations'';
          m' = ingress_class_annotations s pathMode m
      in if extra = '''' then Ok m' else ingress_extra_annotations (Split extra CHR 0x0A) m')"

text \<open>The paths of the first rule, if the ingress has rules.\<close>

definition backendPaths_of :: "ingress \<Rightarrow> http_ingress_path list outcome" where
  "backendPaths_of i =
     (case Rules i of
        None \<Rightarrow> Ok []
      | Some [] \<Rightarrow> Panic ''index out of range''
      | Some (r # _) \<Rightarrow>
          (case HTTP r of None \<Rightarrow> Panic ''nil pointer dereference'' | Some paths \<Rightarrow> Ok paths))"

definition ingress_tlsSecretName :: "ingress_strategy \<Rightarrow> service \<Rightarrow> string" where
  "ingress_tlsSecretName s svc =
     (if ig_tlsAcme s then
        (if ig_tlsSecretName s = '''' then ''tls-'' @ appName_of svc else ig_tlsSecretName s)
      else '''')"

definition listed_backend :: "service \<Rightarrow> string \<Rightarrow> http_ingress_path list \<Rightarrow> bool" where
  "listed_backend svc path backendPaths \<longleftrightarrow>
     (\<exists>b \<in> set backendPaths. BackendServiceName b = Name svc \<and> Path b = path)"

text \<open>
  The ingress that \<^verbatim>\<open>Add\<close> sends, from the one it read or made; \<open>None\<close> when the path is
  already listed and \<^verbatim>\<open>Add\<close> returns early.
\<close>

definition ingress_plan ::
  "ingress_strategy \<Rightarrow> service \<Rightarrow> ingress_target \<Rightarrow> ingress \<Rightarrow> ingress option outcome" where
  "ingress_plan s svc tg i =
     outcome_bind (ingress_annotations s svc (tg_pathMode tg) i) (\<lambda>annotations.
     outcome_bind (backendPaths_of i) (\<lambda>backendPaths.
     if listed_backend svc (tg_path tg) backendPaths then Ok None
     else outcome_bind (servicePort_of svc) (\<lambda>servicePort.
       let ingressPath = \<lparr>BackendServiceName = Name svc, BackendServicePort = FromInt servicePort,
                          Path = tg_path tg\<rparr>;
           rule = \<lparr>RuleHost = tg_hostName tg, HTTP = Some (ingressPath # backendPaths)\<rparr>
       in Ok (Some (i\<lparr>Labels := ingress_labels i, Annotations := Some annotations,
              OwnerReferences := ingress_owners svc i, Rules := Some [rule],
              TLS := (if Ingress_isTLSEnabled s svc
                      then [\<lparr>TLSHosts = [tg_tlsHostName tg], SecretName = ingress_tlsSecretName s svc\<rparr>]
                      else TLS i)\<rparr>)))))"

text \<open>The clone of the service with the URL annotation.\<close>

definition Ingress_clone :: "'b golib \<Rightarrow> ingress_strategy \<Rightarrow> service \<Rightarrow> service" where
  "Ingress_clone L s svc =
     addServiceAnnotationWithProtocol svc (tg_fullHostName (ingress_target_of L s svc))
       (if Ingress_isTLSEnabled s svc then ''https'' else ''http'')"

text \<open>The rest of \<^verbatim>\<open>Add\<close>, once the ingress is read (or made, with \<open>createIngress\<close>).\<close>

definition Ingress_apply ::
  "('w, 'b) client \<Rightarrow> 'b golib \<Rightarrow> ingress_strategy \<Rightarrow> service \<Rightarrow> bool \<Rightarrow> ingress \<Rightarrow> 'w \<Rightarrow> unit outcome \<times> 'w" where
  "Ingress_apply K L s svc createIngress i w =
     (case ingress_plan s svc (ingress_target_of L s svc) i of
        Err e \<Rightarrow> (Err e, w)
      | Panic p \<Rightarrow> (Panic p, w)
      | Ok None \<Rightarrow> (Ok (), w)
      | Ok (Some i') \<Rightarrow>
          (case (if createIngress then ingress_create K (Namespace i') i' w
                 else ingress_update K (Namespace svc) i' w) of
             (Inl e, w') \<Rightarrow>
               (Err (WithMessage ((if createIngress then ''failed to create ingress '' else ''failed to update ingress '')
                  @ Namespace i' @ ''/'' @ Name i') (ApiErr e)), w')
           | (Inr _, w') \<Rightarrow> patchService K L ''failed to send patch'' svc (Ingress_clone L s svc) w'))"

definition Ingress_Add ::
  "('w, 'b) client \<Rightarrow> 'b golib \<Rightarrow> ingress_strategy \<Rightarrow> service \<Rightarrow> 'w \<Rightarrow> unit outcome \<times> 'w" where
  "Ingress_Add K L s svc w =
     (case ingress_get K (Namespace svc) (appName_of svc) w of
        Inr i \<Rightarrow> Ingress_apply K L s svc False i w
      | Inl NotFound \<Rightarrow> Ingress_apply K L s svc True (new_ingress svc) w
      | Inl e \<Rightarrow> (Err (WithMessage (''could not check for existing ingress '' @ Namespace svc @ ''/'' @ appName_of svc)
                   (ApiErr e)), w))"

definition Ingress_Remove ::
  "('w, 'b) client \<Rightarrow> 'b golib \<Rightarrow> ingress_strategy \<Rightarrow> service \<Rightarrow> 'w \<Rightarrow> unit outcome \<times> 'w" where
  "Ingress_Remove K L s svc w =
     (case ingress_delete K (Namespace svc) (releaseName svc) w of
        (Some (Failure e), w') \<Rightarrow> (Err (WithMessage ''failed to delete ingress'' (ApiErr (Failure e))), w')
      | (_, w') \<Rightarrow> patchRemove K L svc w')"

section \<open>The chosen port\<close>

lemma Atoi_Nil [simp]: "Atoi '''' = None"
  by (simp add: Atoi_def)

lemma exposePort_of_cases:
  "exposePort_of svc = Ok ep \<Longrightarrow>
   (\<exists>p ps. Ports svc = p # ps \<and> ep = Itoa (sint (Port p))) \<or>
   (\<exists>p \<in> set (Ports svc). Atoi ep = Some (sint (Port p)))"
  by (auto simp: exposePort_of_def Let_def split: if_splits option.splits list.splits)

lemma servicePort_of_eq:
  "servicePort_of svc =
     (case Ports svc of
        [] \<Rightarrow> Panic ''index out of range''
      | p # _ \<Rightarrow> Ok (case Atoi (annotation svc ExposePortAnnotationKey) of
            Some n \<Rightarrow> if n \<in> (\<lambda>p. sint (Port p)) ` set (Ports svc) then n else sint (Port p)
          | None \<Rightarrow> sint (Port p)))"
  by (auto simp: servicePort_of_def exposePort_of_def Let_def split: option.splits list.splits)

text \<open>
  The port an ingress (or an ambassador mapping) routes to. With the text conversions
  eliminated: the annotated number if it is one of the service's ports, otherwise the first port;
  the conversion error of the code cannot occur, and a service without ports makes it panic.
\<close>

theorem servicePort_of_spec:
  "servicePort_of svc =
     (case Ports svc of
        [] \<Rightarrow> Panic ''index out of range''
      | p # _ \<Rightarrow> Ok (case Atoi (annotation svc ExposePortAnnotationKey) of
            Some n \<Rightarrow> if n \<in> (\<lambda>p. sint (Port p)) ` set (Ports svc) then n else sint (Port p)
          | None \<Rightarrow> sint (Port p)))"
  by (rule servicePort_of_eq)

text \<open>
  C39: the port number survives the conversion to the 32 bits of \<^verbatim>\<open>intstr.FromInt\<close>: what is
  written into the backend is the port of one of the service's ports.
\<close>

theorem servicePort_of_no_truncation:
  assumes "servicePort_of svc = Ok n"
  shows "\<exists>p \<in> set (Ports svc). n = sint (Port p) \<and> IntVal (FromInt n) = Port p"
proof -
  have "\<exists>p \<in> set (Ports svc). n = sint (Port p)"
    using assms unfolding servicePort_of_eq by (auto split: list.splits option.splits if_splits)
  then show ?thesis by (auto simp: FromInt_def)
qed

theorem servicePort_of_no_truncation_witness:
  "\<exists>p \<in> set (Ports example_service). 8080 = sint (Port p) \<and> IntVal (FromInt 8080) = Port p"
proof -
  have "servicePort_of example_service = Ok 8080"
    by (simp add: servicePort_of_eq example_service_def mget_def)
  then show ?thesis by (rule servicePort_of_no_truncation)
qed


section \<open>The planned ingress\<close>

lemma ingress_extra_annotations_Ok:
  "ingress_extra_annotations ls m = Ok m' \<Longrightarrow> \<exists>m2'. ingress_extra_annotations ls m2 = Ok m2'"
  by (induction ls arbitrary: m m2) (auto split: list.splits)

lemma ingress_annotations_Ok:
  assumes "ingress_annotations s svc mode i = Ok m"
    and "annotation t ''fabric8.io/ingress.annotations'' = annotation svc ''fabric8.io/ingress.annotations''"
  shows "\<exists>m'. ingress_annotations s t mode' j = Ok m'"
  using assms ingress_extra_annotations_Ok
  by (simp add: ingress_annotations_def Let_def split: if_splits)

lemma ingress_plan_SomeD:
  assumes "ingress_plan s svc tg i = Ok (Some i')"
  shows "\<exists>m bs port. ingress_annotations s svc (tg_pathMode tg) i = Ok m \<and> backendPaths_of i = Ok bs \<and>
     \<not> listed_backend svc (tg_path tg) bs \<and> servicePort_of svc = Ok port \<and>
     i' = i\<lparr>Labels := ingress_labels i, Annotations := Some m, OwnerReferences := ingress_owners svc i,
       Rules := Some [\<lparr>RuleHost = tg_hostName tg,
         HTTP = Some (\<lparr>BackendServiceName = Name svc, BackendServicePort = FromInt port, Path = tg_path tg\<rparr> # bs)\<rparr>],
       TLS := (if Ingress_isTLSEnabled s svc
               then [\<lparr>TLSHosts = [tg_tlsHostName tg], SecretName = ingress_tlsSecretName s svc\<rparr>]
               else TLS i)\<rparr>"
  using assms by (auto simp: ingress_plan_def outcome_bind_eq_Ok Let_def split: if_splits)

lemma ingress_plan_NoneD:
  "ingress_plan s svc tg i = Ok None \<Longrightarrow>
   \<exists>bs. backendPaths_of i = Ok bs \<and> listed_backend svc (tg_path tg) bs"
  by (auto simp: ingress_plan_def outcome_bind_eq_Ok Let_def split: if_splits)

lemma ingress_plan_names:
  "ingress_plan s svc tg i = Ok (Some i') \<Longrightarrow> Name i' = Name i \<and> Namespace i' = Namespace i"
  by (auto dest!: ingress_plan_SomeD)

lemma ingress_plan_listed:
  assumes "ingress_annotations s svc (tg_pathMode tg) i = Ok m" "backendPaths_of i = Ok bs"
    "listed_backend svc (tg_path tg) bs"
  shows "ingress_plan s svc tg i = Ok None"
  using assms by (simp add: ingress_plan_def)

lemma ingress_plan_extension:
  assumes "ingress_plan s svc tg i = Ok (Some i')"
  shows "\<exists>bs port. backendPaths_of i = Ok bs \<and> servicePort_of svc = Ok port \<and>
     Rules i' = Some [\<lparr>RuleHost = tg_hostName tg,
       HTTP = Some (\<lparr>BackendServiceName = Name svc, BackendServicePort = FromInt port, Path = tg_path tg\<rparr> # bs)\<rparr>]"
  using ingress_plan_SomeD [OF assms] by auto

definition example_ingress_strategy :: ingress_strategy where
  "example_ingress_strategy =
     \<lparr>ig_domain = ''io'', ig_internalDomain = '''', ig_tlsSecretName = '''', ig_tlsUseWildcard = False,
      ig_http = True, ig_tlsAcme = False, ig_urltemplate = ''%[1]s.%[2]s.%[3]s'', ig_pathMode = '''',
      ig_ingressClass = ''''\<rparr>"

definition example_target :: ingress_target where
  "example_target = ingress_target_of ref_lib example_ingress_strategy example_service"

lemma example_target:
  "example_target = \<lparr>tg_hostName = ''web.dev.io'', tg_tlsHostName = ''web.dev.io'',
     tg_fullHostName = ''web.dev.io'', tg_path = '''', tg_pathMode = ''''\<rparr>"
  by (simp add: example_target_def ingress_target_of_def example_ingress_strategy_def example_service_def
      hostName_of_def appName_of_def releaseName_def Sprintf_def is_digit_def Let_def mget_def)

lemma example_plan:
  "\<exists>i'. ingress_plan example_ingress_strategy example_service example_target (new_ingress example_service) =
     Ok (Some i')"
  by (simp add: ingress_plan_def ingress_annotations_def backendPaths_of_def new_ingress_def listed_backend_def
      servicePort_of_eq example_service_def mget_def Let_def)

text \<open>
  With a TLS secret configured but \<^verbatim>\<open>tls-acme\<close> off, TLS is enabled on the ingress and yet
  the secret name written into it is empty: the configured name is used only under
  \<^verbatim>\<open>tls-acme\<close>.
\<close>

theorem tls_secret_ignored_without_acme:
  assumes "ingress_plan s svc tg i = Ok (Some i')"
    and "\<not> ig_tlsAcme s" "ig_tlsSecretName s \<noteq> ''''"
    and "annotation svc ''jenkins-x.io/skip.tls'' \<noteq> ''true''"
  shows "TLS i' = [\<lparr>TLSHosts = [tg_tlsHostName tg], SecretName = ''''\<rparr>]"
  using ingress_plan_SomeD [OF assms(1)] assms(2-)
  by (auto simp: Ingress_isTLSEnabled_def ingress_tlsSecretName_def)

theorem tls_secret_ignored_without_acme_witness:
  "\<exists>i'. ingress_plan (example_ingress_strategy\<lparr>ig_tlsSecretName := ''my-cert''\<rparr>) example_service example_target
       (new_ingress example_service) = Ok (Some i') \<and>
     TLS i' = [\<lparr>TLSHosts = [''web.dev.io''], SecretName = ''''\<rparr>]"
proof -
  let ?s = "example_ingress_strategy\<lparr>ig_tlsSecretName := ''my-cert''\<rparr>"
  obtain i' where i': "ingress_plan ?s example_service example_target (new_ingress example_service) = Ok (Some i')"
    by (simp add: ingress_plan_def ingress_annotations_def backendPaths_of_def new_ingress_def listed_backend_def
        servicePort_of_eq example_service_def mget_def Let_def)
  have "TLS i' = [\<lparr>TLSHosts = [tg_tlsHostName example_target], SecretName = ''''\<rparr>]"
    using i' by (rule tls_secret_ignored_without_acme)
      (simp_all add: example_ingress_strategy_def example_service_def)
  with i' show ?thesis by (simp add: example_target)
qed

section \<open>Add and Remove on a server\<close>

text \<open>Objects are stored under their own namespace and name.\<close>

definition ingresses_keyed :: "cluster \<Rightarrow> bool" where
  "ingresses_keyed c \<longleftrightarrow> (\<forall>ns n i. ings c (ns, n) = Some i \<longrightarrow> Namespace i = ns \<and> Name i = n)"

text \<open>The paths of the first rule of an ingress, none if there is no ingress.\<close>

definition firstRule_paths :: "ingress option \<Rightarrow> http_ingress_path list" where
  "firstRule_paths io =
     (case io of None \<Rightarrow> []
      | Some i \<Rightarrow> (case backendPaths_of i of Ok bs \<Rightarrow> bs | _ \<Rightarrow> []))"

text \<open>
  Ingress \<open>j\<close> has one rule and no other, for the host of the target, with the path of \<open>svc\<close>
  in front of the paths \<open>old\<close>.
\<close>

definition routes_service :: "service \<Rightarrow> ingress_target \<Rightarrow> http_ingress_path list \<Rightarrow> ingress \<Rightarrow> bool" where
  "routes_service svc tg old j \<longleftrightarrow>
     (\<exists>port. servicePort_of svc = Ok port \<and>
       Rules j = Some [\<lparr>RuleHost = tg_hostName tg,
         HTTP = Some (\<lparr>BackendServiceName = Name svc, BackendServicePort = FromInt port, Path = tg_path tg\<rparr> # old)\<rparr>])"

lemma routes_service_accepts:
  assumes "ingress_plan s svc tg i = Ok (Some i')" "accepts_ingress i' j"
  shows "routes_service svc tg (firstRule_paths (Some i)) j"
proof -
  from ingress_plan_extension [OF assms(1)] obtain bs port where
    i': "backendPaths_of i = Ok bs" "servicePort_of svc = Ok port"
      "Rules i' = Some [\<lparr>RuleHost = tg_hostName tg,
         HTTP = Some (\<lparr>BackendServiceName = Name svc, BackendServicePort = FromInt port, Path = tg_path tg\<rparr> # bs)\<rparr>]"
    by blast
  have "wire_rules (Rules j) = wire_rules (Rules i')" using assms(2) by (simp add: accepts_ingress_def)
  with i'(3) have "Rules j = Rules i'" by (auto simp: wire_rules_def split: if_splits)
  with i' show ?thesis by (simp add: routes_service_def firstRule_paths_def)
qed

lemma routes_service_paths:
  "routes_service svc tg old j \<Longrightarrow> \<exists>port. servicePort_of svc = Ok port \<and> firstRule_paths (Some j) =
     \<lparr>BackendServiceName = Name svc, BackendServicePort = FromInt port, Path = tg_path tg\<rparr> # old"
  by (auto simp: routes_service_def firstRule_paths_def backendPaths_of_def)

lemma firstRule_paths_new [simp]: "firstRule_paths (Some (new_ingress svc)) = firstRule_paths None"
  by (simp add: firstRule_paths_def backendPaths_of_def new_ingress_def)

context kube_server
begin

lemma Ingress_apply_effect:
  assumes "Ingress_apply K L s svc create i w = (Ok (), w')"
    and "svcs (view w) (service_key svc) = Some svc"
    and "Name i = appName_of svc" "Namespace i = Namespace svc"
  shows "(w' = w \<and> (\<exists>bs. backendPaths_of i = Ok bs \<and> listed_backend svc (tg_path (ingress_target_of L s svc)) bs)) \<or>
     (\<exists>j t. \<not> listed_backend svc (tg_path (ingress_target_of L s svc)) (firstRule_paths (Some i)) \<and>
        routes_service svc (ingress_target_of L s svc) (firstRule_paths (Some i)) j \<and>
        accepts_service (Ingress_clone L s svc) t \<and>
        view w' = (view w)\<lparr>ings := (ings (view w))((Namespace svc, appName_of svc) \<mapsto> j),
                           svcs := (svcs (view w))(service_key svc \<mapsto> t)\<rparr>)"
proof (cases "ingress_plan s svc (ingress_target_of L s svc) i")
  case (Ok io)
  show ?thesis
  proof (cases io)
    case None
    with Ok assms(1) have "w' = w" by (simp add: Ingress_apply_def)
    with ingress_plan_NoneD Ok None show ?thesis by blast
  next
    case (Some i')
    with Ok have plan: "ingress_plan s svc (ingress_target_of L s svc) i = Ok (Some i')" by simp
    have names: "Name i' = appName_of svc" "Namespace i' = Namespace svc"
      using ingress_plan_names [OF plan] assms(3,4) by auto
    obtain j w1 where w1: "(if create then ingress_create K (Namespace i') i' w
          else ingress_update K (Namespace svc) i' w) = (Inr j, w1)"
        and patch: "patchService K L ''failed to send patch'' svc (Ingress_clone L s svc) w1 = (Ok (), w')"
      using assms(1) plan by (auto simp: Ingress_apply_def split: sum.splits prod.splits)
    have j: "accepts_ingress i' j"
      and v1: "view w1 = (view w)\<lparr>ings := (ings (view w))((Namespace svc, appName_of svc) \<mapsto> j)\<rparr>"
      using w1 names by (auto dest!: create_ingress update_ingress split: if_splits)
    have "svcs (view w1) (service_key svc) = Some svc" using v1 assms(2) by simp
    from patchService_stored [OF patch this] obtain t where "accepts_service (Ingress_clone L s svc) t"
      "view w' = (view w1)\<lparr>svcs := (svcs (view w1))(service_key svc \<mapsto> t)\<rparr>" by blast
    moreover have "\<not> listed_backend svc (tg_path (ingress_target_of L s svc)) (firstRule_paths (Some i))"
      using ingress_plan_SomeD [OF plan] by (auto simp: firstRule_paths_def)
    ultimately show ?thesis
      using v1 routes_service_accepts [OF plan j] by (intro disjI2 exI [of _ j] exI [of _ t]) simp
  qed
qed (use assms(1) in \<open>simp_all add: Ingress_apply_def\<close>)

lemma Ingress_Add_effect_lemma:
  assumes "Ingress_Add K L s svc w = (Ok (), w')"
    and "svcs (view w) (service_key svc) = Some svc" "ingresses_keyed (view w)"
  shows "(w' = w \<and> listed_backend svc (tg_path (ingress_target_of L s svc))
            (firstRule_paths (ings (view w) (Namespace svc, appName_of svc)))) \<or>
     (\<exists>j t. \<not> listed_backend svc (tg_path (ingress_target_of L s svc))
          (firstRule_paths (ings (view w) (Namespace svc, appName_of svc))) \<and>
        routes_service svc (ingress_target_of L s svc)
          (firstRule_paths (ings (view w) (Namespace svc, appName_of svc))) j \<and>
        accepts_service (Ingress_clone L s svc) t \<and>
        view w' = (view w)\<lparr>ings := (ings (view w))((Namespace svc, appName_of svc) \<mapsto> j),
                           svcs := (svcs (view w))(service_key svc \<mapsto> t)\<rparr>)"
proof (cases "ingress_get K (Namespace svc) (appName_of svc) w")
  case (Inl e)
  show ?thesis
  proof (cases e)
    case NotFound
    have "Ingress_apply K L s svc True (new_ingress svc) w = (Ok (), w')"
      using assms(1) Inl NotFound by (simp add: Ingress_Add_def)
    moreover have "ings (view w) (Namespace svc, appName_of svc) = None"
      using get_no_ingress Inl NotFound by blast
    moreover have "backendPaths_of (new_ingress svc) = Ok []"
      by (simp add: backendPaths_of_def new_ingress_def)
    ultimately show ?thesis
      using Ingress_apply_effect [of s svc True "new_ingress svc" w w'] assms(2)
      by (simp add: new_ingress_def [THEN arg_cong [where f = Name]] new_ingress_def [THEN arg_cong [where f = Namespace]]
          listed_backend_def)
  qed (use assms(1) Inl in \<open>simp add: Ingress_Add_def\<close>)
next
  case (Inr i)
  then have i: "ings (view w) (Namespace svc, appName_of svc) = Some i" by (rule get_ingress)
  with assms(3) have "Name i = appName_of svc" "Namespace i = Namespace svc"
    by (auto simp: ingresses_keyed_def)
  moreover have "Ingress_apply K L s svc False i w = (Ok (), w')"
    using assms(1) Inr by (simp add: Ingress_Add_def)
  ultimately show ?thesis
    using Ingress_apply_effect [of s svc False i w w'] assms(2) i
    by (auto simp: firstRule_paths_def)
qed

end

lemma getAutoDefaultDomain_not_empty: "getAutoDefaultDomain K L w \<noteq> Ok ''''"
  by (auto simp: getAutoDefaultDomain_def nip_domain_def Let_def outcome_bind_eq_Ok
      split: prod.splits option.splits if_splits)

lemma wildcard_setup_Ok:
  assumes "wildcard_setup K L domain urltemplate w = Ok (d, f)"
  shows "typeOfMaster K L w = Ok kubernetes" "d \<noteq> ''''" "domain \<noteq> '''' \<Longrightarrow> d = domain"
    "domain = '''' \<Longrightarrow> getAutoDefaultDomain K L w = Ok d" "getURLFormat L urltemplate = Ok f"
proof -
  obtain t where t: "typeOfMaster K L w = Ok t"
    by (cases "typeOfMaster K L w") (auto simp: typeOfMaster_not_Err)
  with assms have "t \<noteq> openShift" by (auto simp: wildcard_setup_def)
  then have "t = kubernetes" by (cases t) auto
  with t show "typeOfMaster K L w = Ok kubernetes" by simp
  with assms show "d \<noteq> ''''" "domain \<noteq> '''' \<Longrightarrow> d = domain"
    "domain = '''' \<Longrightarrow> getAutoDefaultDomain K L w = Ok d" "getURLFormat L urltemplate = Ok f"
    using getAutoDefaultDomain_not_empty [of K L w]
    by (auto simp: wildcard_setup_def split: outcome.splits if_splits)
qed

text \<open>
  C3: what a successful \<^verbatim>\<open>IngressStrategy.Add\<close> of a stored service did. Either the first rule of
  the ingress already listed the service at its path, and nothing was written; or the ingress under
  the service's application name now has a single rule, for the computed host, with the path of the
  service in front of the paths its first rule had before (the rules after the first are gone), the
  stored service carries the URL annotation, and no other object has changed.
\<close>

theorem Ingress_Add_effect:
  assumes "kube_server K L view" "Ingress_Add K L s svc w = (Ok (), w')"
    and "svcs (view w) (service_key svc) = Some svc" "ingresses_keyed (view w)"
  shows "(w' = w \<and> listed_backend svc (tg_path (ingress_target_of L s svc))
            (firstRule_paths (ings (view w) (Namespace svc, appName_of svc)))) \<or>
     (\<exists>j t. \<not> listed_backend svc (tg_path (ingress_target_of L s svc))
          (firstRule_paths (ings (view w) (Namespace svc, appName_of svc))) \<and>
        routes_service svc (ingress_target_of L s svc)
          (firstRule_paths (ings (view w) (Namespace svc, appName_of svc))) j \<and>
        accepts_service (Ingress_clone L s svc) t \<and>
        view w' = (view w)\<lparr>ings := (ings (view w))((Namespace svc, appName_of svc) \<mapsto> j),
                           svcs := (svcs (view w))(service_key svc \<mapsto> t)\<rparr>)"
  using assms(2-) by (rule kube_server.Ingress_Add_effect_lemma [OF assms(1)])

definition ingress_state :: ref_state where
  "ingress_state = lb_state\<lparr>ref_services := [((''dev'', ''web''), example_service)]\<rparr>"

lemma ingress_state_facts:
  "svcs (ref_view ingress_state) (service_key example_service) = Some example_service"
  "ingresses_keyed (ref_view ingress_state)"
  "appName_of example_service = ''web''"
  by (simp_all add: ref_view_def ingress_state_def lb_state_def example_service_def ingresses_keyed_def
      appName_of_def releaseName_def mget_def)

lemma Ingress_Add_example:
  "\<exists>w'. Ingress_Add ref_client ref_lib example_ingress_strategy example_service ingress_state = (Ok (), w') \<and>
     w' \<noteq> ingress_state"
proof -
  from example_plan obtain i' where plan: "ingress_plan example_ingress_strategy example_service
      (ingress_target_of ref_lib example_ingress_strategy example_service) (new_ingress example_service) = Ok (Some i')"
    unfolding example_target_def ..
  have "ingress_get ref_client (Namespace example_service) (appName_of example_service) ingress_state = Inl NotFound"
    by (simp add: ref_client_def ref_get_def ingress_state_def lb_state_def)
  then have "Ingress_Add ref_client ref_lib example_ingress_strategy example_service ingress_state =
      Ingress_apply ref_client ref_lib example_ingress_strategy example_service True
        (new_ingress example_service) ingress_state"
    by (simp add: Ingress_Add_def)
  also have "\<dots> = patchService ref_client ref_lib ''failed to send patch'' example_service
      (Ingress_clone ref_lib example_ingress_strategy example_service)
      (ingress_state\<lparr>ref_ingresses := [((''dev'', Name i'), stamp i')]\<rparr>)"
  proof -
    have "Namespace i' = ''dev''"
      using ingress_plan_names [OF plan] by (simp add: new_ingress_def) (simp add: example_service_def)
    moreover have "ingress_create ref_client ''dev'' i' ingress_state =
        (Inr (stamp i'), ingress_state\<lparr>ref_ingresses := [((''dev'', Name i'), stamp i')]\<rparr>)"
      by (simp add: ref_client_def ingress_state_def lb_state_def)
    ultimately show ?thesis by (simp add: Ingress_apply_def plan)
  qed
  finally have eq: "Ingress_Add ref_client ref_lib example_ingress_strategy example_service ingress_state =
      patchService ref_client ref_lib ''failed to send patch'' example_service
        (Ingress_clone ref_lib example_ingress_strategy example_service)
        (ingress_state\<lparr>ref_ingresses := [((''dev'', Name i'), stamp i')]\<rparr>)" .
  have "\<exists>w'. patchService ref_client ref_lib ''failed to send patch'' example_service c
      (ingress_state\<lparr>ref_ingresses := [((''dev'', Name i'), stamp i')]\<rparr>) = (Ok (), w') \<and>
      ref_ingresses w' = [((''dev'', Name i'), stamp i')]" for c
    by (simp add: patchService_def createPatch_def ref_lib_def ref_client_def ingress_state_def lb_state_def
        example_service_def)
  then show ?thesis unfolding eq by (force simp: ingress_state_def lb_state_def)
qed

theorem Ingress_Add_effect_witness:
  "\<exists>w' j. Ingress_Add ref_client ref_lib example_ingress_strategy example_service ingress_state = (Ok (), w') \<and>
     ings (ref_view w') (''dev'', ''web'') = Some j \<and>
     routes_service example_service (ingress_target_of ref_lib example_ingress_strategy example_service) [] j"
proof -
  from Ingress_Add_example obtain w' where
    add: "Ingress_Add ref_client ref_lib example_ingress_strategy example_service ingress_state = (Ok (), w')"
    and "w' \<noteq> ingress_state" by blast
  have none: "ings (ref_view ingress_state) (Namespace example_service, ''web'') = None"
    by (simp add: ref_view_def ingress_state_def lb_state_def)
  from Ingress_Add_effect [OF ref.kube_server_axioms add ingress_state_facts(1,2)] \<open>w' \<noteq> ingress_state\<close>
  obtain j t where j: "routes_service example_service (ingress_target_of ref_lib example_ingress_strategy example_service) [] j"
    and v: "ings (ref_view w') = (ings (ref_view ingress_state))((Namespace example_service, ''web'') \<mapsto> j)"
    by (auto simp: ingress_state_facts(3) none firstRule_paths_def)
  have "Namespace example_service = ''dev''" by (simp add: example_service_def)
  with add j v show ?thesis by auto
qed

text \<open>All the routes of an ingress: the paths of every rule, with the host of the rule.\<close>

definition ingress_routes :: "ingress \<Rightarrow> (string \<times> http_ingress_path) list" where
  "ingress_routes i =
     concat (map (\<lambda>r. map (Pair (RuleHost r)) (case HTTP r of None \<Rightarrow> [] | Some ps \<Rightarrow> ps))
       (case Rules i of None \<Rightarrow> [] | Some rs \<Rightarrow> rs))"

lemma routes_service_routes:
  "routes_service svc tg old j \<Longrightarrow> \<exists>port. servicePort_of svc = Ok port \<and>
   ingress_routes j = map (Pair (tg_hostName tg))
     (\<lparr>BackendServiceName = Name svc, BackendServicePort = FromInt port, Path = tg_path tg\<rparr> # old)"
  by (auto simp: routes_service_def ingress_routes_def)


definition two_rule_ingress :: ingress where
  "two_rule_ingress = (new_ingress example_service)\<lparr>Rules := Some
     [\<lparr>RuleHost = ''a.io'', HTTP = Some []\<rparr>,
      \<lparr>RuleHost = ''b.io'', HTTP = Some [\<lparr>BackendServiceName = ''api'', BackendServicePort = FromInt 80, Path = ''/''\<rparr>]\<rparr>]\<rparr>"

definition two_rule_state :: ref_state where
  "two_rule_state = ingress_state\<lparr>ref_ingresses := [((''dev'', ''web''), two_rule_ingress)]\<rparr>"

lemma two_rule_add:
  "\<exists>w'. Ingress_Add ref_client ref_lib example_ingress_strategy example_service two_rule_state = (Ok (), w')"
proof -
  let ?tg = "ingress_target_of ref_lib example_ingress_strategy example_service"
  have names: "Namespace example_service = ''dev''" by (simp add: example_service_def)
  obtain i' where plan: "ingress_plan example_ingress_strategy example_service ?tg two_rule_ingress = Ok (Some i')"
    by (simp add: ingress_plan_def ingress_annotations_def backendPaths_of_def new_ingress_def listed_backend_def
        two_rule_ingress_def servicePort_of_eq example_service_def mget_def Let_def)
  have i': "Name i' = ''web''" "Namespace i' = ''dev''"
    using ingress_plan_names [OF plan] ingress_state_facts(3)
    by (simp_all add: two_rule_ingress_def new_ingress_def) (simp add: example_service_def)
  have get: "ingress_get ref_client ''dev'' ''web'' two_rule_state = Inr two_rule_ingress"
    by (simp add: ref_client_def ref_get_def two_rule_state_def)
  have upd: "ingress_update ref_client ''dev'' i' two_rule_state =
      (Inr (stamp i'), two_rule_state\<lparr>ref_ingresses := [((''dev'', ''web''), stamp i')]\<rparr>)"
    using i' by (simp add: ref_client_def two_rule_state_def)
  have "\<exists>w'. patchService ref_client ref_lib ''failed to send patch'' example_service c
      (two_rule_state\<lparr>ref_ingresses := [((''dev'', ''web''), stamp i')]\<rparr>) = (Ok (), w')" for c
    by (simp add: patchService_def createPatch_def ref_lib_def ref_client_def two_rule_state_def ingress_state_def
        lb_state_def example_service_def)
  with get upd plan show ?thesis
    by (simp add: Ingress_Add_def Ingress_apply_def names ingress_state_facts(3))
qed


text \<open>
  When the ingress already lists the service at its path, \<^verbatim>\<open>Add\<close> returns without writing,
  whatever the annotations of the service are. So an \<^verbatim>\<open>Add\<close> whose last step, the patch of the
  service, failed is never completed by a later one.
\<close>

theorem Ingress_Add_listed_skips:
  assumes "ingress_get K (Namespace svc) (appName_of svc) w = Inr i"
    and "backendPaths_of i = Ok bs"
    and "listed_backend svc (tg_path (ingress_target_of L s svc)) bs"
    and "annotation svc ''fabric8.io/ingress.annotations'' = ''''"
  shows "Ingress_Add K L s svc w = (Ok (), w)"
proof -
  have "\<exists>m. ingress_annotations s svc (tg_pathMode (ingress_target_of L s svc)) i = Ok m"
    using assms(4) by (simp add: ingress_annotations_def)
  then obtain m where "ingress_annotations s svc (tg_pathMode (ingress_target_of L s svc)) i = Ok m" ..
  with assms show ?thesis
    by (simp add: Ingress_Add_def Ingress_apply_def ingress_plan_listed)
qed

definition listed_state :: ref_state where
  "listed_state = ingress_state\<lparr>ref_ingresses := [((''dev'', ''web''), (new_ingress example_service)\<lparr>Rules :=
     Some [\<lparr>RuleHost = ''h'', HTTP = Some [\<lparr>BackendServiceName = ''web'', BackendServicePort = FromInt 1, Path = ''''\<rparr>]\<rparr>]\<rparr>)]\<rparr>"

theorem Ingress_Add_listed_skips_witness:
  "Ingress_Add ref_client ref_lib example_ingress_strategy example_service listed_state = (Ok (), listed_state) \<and>
   annotation example_service ExposeAnnotationKey = ''''"
proof -
  let ?i = "(new_ingress example_service)\<lparr>Rules := Some [\<lparr>RuleHost = ''h'',
     HTTP = Some [\<lparr>BackendServiceName = ''web'', BackendServicePort = FromInt 1, Path = ''''\<rparr>]\<rparr>]\<rparr>"
  have "ingress_get ref_client (Namespace example_service) (appName_of example_service) listed_state = Inr ?i"
    unfolding ingress_state_facts(3)
    by (simp add: ref_client_def ref_get_def listed_state_def) (simp add: example_service_def)
  moreover have "backendPaths_of ?i =
      Ok [\<lparr>BackendServiceName = ''web'', BackendServicePort = FromInt 1, Path = ''''\<rparr>]"
    by (simp add: backendPaths_of_def)
  moreover have "listed_backend example_service (tg_path (ingress_target_of ref_lib example_ingress_strategy example_service))
      [\<lparr>BackendServiceName = ''web'', BackendServicePort = FromInt 1, Path = ''''\<rparr>]"
    unfolding example_target_def [symmetric] example_target by (simp add: listed_backend_def example_service_def)
  moreover have "annotation example_service k = ''''" if "k \<noteq> ''a''" for k
    using that by (simp add: example_service_def)
  ultimately show ?thesis by (simp add: Ingress_Add_listed_skips)
qed

context kube_server
begin

lemma Ingress_Remove_stored:
  assumes "Ingress_Remove K L s svc w = (Ok (), w')" "svcs (view w) (service_key svc) = Some svc"
  shows "\<exists>t. accepts_service (removeServiceAnnotation svc) t \<and>
     view w' = (view w)\<lparr>ings := (ings (view w))((Namespace svc, releaseName svc) := None),
                        svcs := (svcs (view w))(service_key svc \<mapsto> t)\<rparr>"
proof -
  obtain r w1 where d: "ingress_delete K (Namespace svc) (releaseName svc) w = (r, w1)"
    and patch: "patchRemove K L svc w1 = (Ok (), w')" and r: "r = None \<or> r = Some NotFound"
    using assms(1) by (auto simp: Ingress_Remove_def split: prod.splits option.splits api_error.splits)
  have v1: "view w1 = (view w)\<lparr>ings := (ings (view w))((Namespace svc, releaseName svc) := None)\<rparr>"
    using r d delete_ingress delete_no_ingress by (auto simp: fun_upd_idem)
  then have "svcs (view w1) (service_key svc) = Some svc" using assms(2) by simp
  from patchService_stored [OF patch [unfolded patchRemove_def] this] obtain t
    where "accepts_service (removeServiceAnnotation svc) t"
      "view w' = (view w1)\<lparr>svcs := (svcs (view w1))(service_key svc \<mapsto> t)\<rparr>" by blast
  with v1 show ?thesis by (intro exI [of _ t]) simp
qed

end

text \<open>
  C27: a successful \<^verbatim>\<open>IngressStrategy.Remove\<close> of a stored service has deleted the ingress named
  after the service, less its release prefix, and has taken from the service the URL annotation and
  the annotation named by \<^verbatim>\<open>fabric8.io/exposeHostNameAs\<close>; the service is otherwise stored as it was,
  and no other object has changed. In particular the ingress that \<^verbatim>\<open>Add\<close> made under a different
  name, given by \<^verbatim>\<open>fabric8.io/ingress.name\<close>, is still there.
\<close>

theorem Ingress_Remove_effect:
  assumes "kube_server K L view" "Ingress_Remove K L s svc w = (Ok (), w')"
    and "svcs (view w) (service_key svc) = Some svc"
  shows "(\<exists>t. accepts_service (removeServiceAnnotation svc) t \<and>
     accepts_service (svc\<lparr>Annotations := Annotations t\<rparr>) t \<and>
     (\<forall>k. annotation t k = (if k = ExposeAnnotationKey \<or> k \<noteq> '''' \<and> k = annotation svc ExposeHostNameAsAnnotationKey then ''''
        else annotation svc k)) \<and>
     view w' = (view w)\<lparr>ings := (ings (view w))((Namespace svc, releaseName svc) := None),
                        svcs := (svcs (view w))(service_key svc \<mapsto> t)\<rparr>) \<and>
     (if appName_of svc = releaseName svc then ings (view w') (Namespace svc, appName_of svc) = None
      else ings (view w') (Namespace svc, appName_of svc) = ings (view w) (Namespace svc, appName_of svc))"
proof -
  from kube_server.Ingress_Remove_stored [OF assms] obtain t where
    t: "accepts_service (removeServiceAnnotation svc) t"
    and v: "view w' = (view w)\<lparr>ings := (ings (view w))((Namespace svc, releaseName svc) := None),
      svcs := (svcs (view w))(service_key svc \<mapsto> t)\<rparr>" by blast
  have "accepts_service (svc\<lparr>Annotations := Annotations t\<rparr>) t"
    using t by (simp add: accepts_service_def same_meta_def removeServiceAnnotation_def Let_def)
  moreover have "annotation t k = (if k = ExposeAnnotationKey \<or> k \<noteq> '''' \<and> k = annotation svc ExposeHostNameAsAnnotationKey then ''''
      else annotation svc k)" for k
    using accepts_service_annotation [OF t, of k] by (auto simp: annotation_removeServiceAnnotation Let_def)
  ultimately show ?thesis using t v by auto
qed

definition renamed_service :: service where
  "renamed_service = example_service\<lparr>Annotations := Some (fmupd ''fabric8.io/ingress.name'' ''bar'' fmempty)\<rparr>"

definition renamed_state :: ref_state where
  "renamed_state = lb_state\<lparr>ref_services := [((''dev'', ''web''), renamed_service)],
     ref_ingresses := [((''dev'', ''bar''), new_ingress renamed_service)]\<rparr>"

theorem Ingress_Remove_effect_witness:
  "\<exists>w'. Ingress_Remove ref_client ref_lib example_ingress_strategy renamed_service renamed_state = (Ok (), w') \<and>
     ings (ref_view w') (''dev'', ''bar'') = Some (new_ingress renamed_service)"
proof -
  have facts: "svcs (ref_view renamed_state) (service_key renamed_service) = Some renamed_service"
    "appName_of renamed_service = ''bar''" "releaseName renamed_service = ''web''" "Namespace renamed_service = ''dev''"
    by (simp_all add: ref_view_def renamed_state_def renamed_service_def example_service_def appName_of_def releaseName_def)
  have "Ingress_Remove ref_client ref_lib example_ingress_strategy renamed_service renamed_state = (Ok (), renamed_state)"
  proof -
    have "removeServiceAnnotation renamed_service = renamed_service"
      by (simp add: removeServiceAnnotation_def renamed_service_def Let_def fmdrop_absent)
    moreover have "ingress_delete ref_client ''dev'' ''web'' renamed_state = (Some NotFound, renamed_state)"
      by (simp add: ref_client_def renamed_state_def)
    ultimately show ?thesis
      by (simp add: Ingress_Remove_def facts patchRemove_def patchService_def createPatch_def ref_lib_def)
  qed
  with Ingress_Remove_effect [OF ref.kube_server_axioms this facts(1)] show ?thesis
    by (simp add: facts) (simp add: ref_view_def renamed_state_def)
qed

section \<open>Add settles\<close>

text \<open>The annotations of the service that decide which ingress and which path \<^verbatim>\<open>Add\<close> looks at.\<close>

definition ingress_keys :: "string list" where
  "ingress_keys = [''fabric8.io/ingress.name'', ''fabric8.io/ingress.path'', ''fabric8.io/path.mode'',
     ''fabric8.io/ingress.annotations'']"

lemma same_target:
  assumes "Name t = Name svc" "Namespace t = Namespace svc" "label t ''release'' = label svc ''release''"
    and "\<And>k. k \<in> set ingress_keys \<Longrightarrow> annotation t k = annotation svc k"
  shows "appName_of t = appName_of svc" "tg_path (ingress_target_of L s t) = tg_path (ingress_target_of L s svc)"
proof -
  have k: "annotation t ''fabric8.io/ingress.name'' = annotation svc ''fabric8.io/ingress.name''"
    "annotation t ''fabric8.io/ingress.path'' = annotation svc ''fabric8.io/ingress.path''"
    "annotation t ''fabric8.io/path.mode'' = annotation svc ''fabric8.io/path.mode''"
    using assms(4) by (simp_all add: ingress_keys_def)
  show "appName_of t = appName_of svc" unfolding appName_of_def releaseName_def assms(1,3) k ..
  then show "tg_path (ingress_target_of L s t) = tg_path (ingress_target_of L s svc)"
    unfolding ingress_target_of_def Let_def assms(2) k by simp
qed

lemma Ingress_clone_keys:
  assumes "accepts_service (Ingress_clone L s svc) t" "annotation svc ExposeHostNameAsAnnotationKey \<notin> set ingress_keys"
  shows "Name t = Name svc" "Namespace t = Namespace svc" "label t ''release'' = label svc ''release''"
    "k \<in> set ingress_keys \<Longrightarrow> annotation t k = annotation svc k"
proof -
  show "Name t = Name svc" "Namespace t = Namespace svc" "label t ''release'' = label svc ''release''"
    using assms(1) same_meta_label [of "Ingress_clone L s svc" t "''release''"]
    by (simp_all add: accepts_service_def same_meta_def Ingress_clone_def addServiceAnnotationWithProtocol_annotate)
  show "annotation t k = annotation svc k" if "k \<in> set ingress_keys"
  proof -
    have "k \<noteq> ExposeAnnotationKey" "k \<noteq> annotation svc ExposeHostNameAsAnnotationKey"
      using that assms(2) by (auto simp: ingress_keys_def)
    then show ?thesis
      by (simp add: accepts_service_annotation [OF assms(1)] Ingress_clone_def
          annotation_addServiceAnnotationWithProtocol Let_def)
  qed
qed

context kube_server
begin

lemma Ingress_Add_quiet:
  assumes "listed_backend t (tg_path (ingress_target_of L s t))
      (firstRule_paths (ings (view w) (Namespace t, appName_of t)))"
    and "\<And>mode i. \<exists>m. ingress_annotations s t mode i = Ok m"
  shows "\<exists>r. Ingress_Add K L s t w = (r, w) \<and> (\<forall>p. r \<noteq> Panic p)"
proof (cases "ingress_get K (Namespace t) (appName_of t) w")
  case (Inl e)
  have "ings (view w) (Namespace t, appName_of t) \<noteq> None"
    using assms(1) by (cases "ings (view w) (Namespace t, appName_of t)") (simp_all add: listed_backend_def firstRule_paths_def)
  with Inl get_no_ingress have "e \<noteq> NotFound" by auto
  with Inl show ?thesis by (cases e) (simp_all add: Ingress_Add_def)
next
  case (Inr i)
  from get_ingress [OF Inr] assms(1) obtain bs where bs: "backendPaths_of i = Ok bs"
    "listed_backend t (tg_path (ingress_target_of L s t)) bs"
    by (cases "backendPaths_of i") (auto simp: firstRule_paths_def listed_backend_def)
  from assms(2) obtain m where "ingress_annotations s t (tg_pathMode (ingress_target_of L s t)) i = Ok m" by blast
  from ingress_plan_listed [OF this bs] Inr show ?thesis by (simp add: Ingress_Add_def Ingress_apply_def)
qed

lemma Ingress_Add_annotations:
  assumes "Ingress_Add K L s svc w = (Ok (), w')"
  shows "\<exists>mode i m. ingress_annotations s svc mode i = Ok m"
proof -
  obtain create i where "Ingress_apply K L s svc create i w = (Ok (), w')"
    using assms by (auto simp: Ingress_Add_def split: sum.splits api_error.splits)
  then obtain io where "ingress_plan s svc (ingress_target_of L s svc) i = Ok io"
    by (auto simp: Ingress_apply_def split: outcome.splits)
  then show ?thesis by (auto simp: ingress_plan_def outcome_bind_eq_Ok)
qed

text \<open>
  Once \<^verbatim>\<open>Add\<close> has succeeded, adding the service in the form the server stored it writes nothing, as
  long as the ingresses are as they were then.
\<close>

lemma Ingress_Add_settles:
  assumes "Ingress_Add K L s svc w0 = (Ok (), w1)"
    and "svcs (view w0) (service_key svc) = Some svc" "ingresses_keyed (view w0)"
    and "svcs (view w1) (service_key svc) = Some t" "annotation svc ExposeHostNameAsAnnotationKey \<notin> set ingress_keys"
    and "ings (view w) = ings (view w1)"
  shows "\<exists>r. Ingress_Add K L s t w = (r, w) \<and> (\<forall>p. r \<noteq> Panic p)"
proof -
  let ?path = "\<lambda>x. tg_path (ingress_target_of L s x)"
  let ?listed = "\<lambda>V. listed_backend svc (?path svc) (firstRule_paths (ings V (Namespace svc, appName_of svc)))"
  have t: "Name t = Name svc" "Namespace t = Namespace svc" "label t ''release'' = label svc ''release''"
    "\<And>k. k \<in> set ingress_keys \<Longrightarrow> annotation t k = annotation svc k" and listed: "?listed (view w1)"
  proof -
    have "((Name t = Name svc \<and> Namespace t = Namespace svc \<and> label t ''release'' = label svc ''release'') \<and>
      (\<forall>k \<in> set ingress_keys. annotation t k = annotation svc k)) \<and> ?listed (view w1)"
    proof (cases "?listed (view w0)")
      case True
      with Ingress_Add_effect_lemma [OF assms(1-3)] have "w1 = w0" by blast
      with True assms(2,4) show ?thesis by simp
    next
      case False
      with Ingress_Add_effect_lemma [OF assms(1-3)] obtain j t' where
        j: "routes_service svc (ingress_target_of L s svc) (firstRule_paths (ings (view w0) (Namespace svc, appName_of svc))) j"
        and t': "accepts_service (Ingress_clone L s svc) t'" and v: "view w1 = (view w0)\<lparr>ings := (ings (view w0))((Namespace svc, appName_of svc) \<mapsto> j),
          svcs := (svcs (view w0))(service_key svc \<mapsto> t')\<rparr>" by blast
      from v assms(4) have "t = t'" by simp
      moreover from routes_service_paths [OF j] v have "?listed (view w1)" by (auto simp: listed_backend_def)
      ultimately show ?thesis using Ingress_clone_keys [OF t' assms(5)] by blast
    qed
    then show "Name t = Name svc" "Namespace t = Namespace svc" "label t ''release'' = label svc ''release''"
      "\<And>k. k \<in> set ingress_keys \<Longrightarrow> annotation t k = annotation svc k" "?listed (view w1)" by blast+
  qed
  have "annotation t ''fabric8.io/ingress.annotations'' = annotation svc ''fabric8.io/ingress.annotations''"
    using t(4) by (simp add: ingress_keys_def)
  moreover obtain mode0 i0 m0 where "ingress_annotations s svc mode0 i0 = Ok m0"
    using Ingress_Add_annotations [OF assms(1)] by blast
  ultimately have "\<exists>m. ingress_annotations s t mode i = Ok m" for mode i
    by (intro ingress_annotations_Ok [of s svc mode0 i0 m0 t])
  moreover have "listed_backend t (?path t) (firstRule_paths (ings (view w) (Namespace t, appName_of t)))"
    using listed same_target(1) [OF t] t(1,2) assms(6) by (simp add: listed_backend_def same_target(2) [OF t])
  ultimately show ?thesis by (rule Ingress_Add_quiet [rotated])
qed

end

section \<open>The strategy contract\<close>

text \<open>The paths to the service \<open>m\<close> in the first rule of the ingress \<open>n\<close>.\<close>

definition own_paths :: "cluster \<Rightarrow> string \<Rightarrow> string \<Rightarrow> string \<Rightarrow> http_ingress_path list" where
  "own_paths V ns n m = filter (\<lambda>b. BackendServiceName b = m) (firstRule_paths (ings V (ns, n)))"

text \<open>
  What \<^verbatim>\<open>Add\<close> promises of a service, the state \<open>V\<close> before, the state \<open>V'\<close> after and the service \<open>t\<close>
  stored then. Only if the ingress already led to the service at its path are both unchanged;
  otherwise the ingress has gained a path to the chosen port and the service carries the URL.
\<close>

definition Ingress_exposed ::
  "'b golib \<Rightarrow> ingress_strategy \<Rightarrow> cluster \<Rightarrow> cluster \<Rightarrow> service \<Rightarrow> service \<Rightarrow> bool" where
  "Ingress_exposed L s V V' svc t \<longleftrightarrow>
     (let path = tg_path (ingress_target_of L s svc);
          own = own_paths V (Namespace svc) (appName_of svc) (Name svc);
          own' = own_paths V' (Namespace svc) (appName_of svc) (Name svc)
      in if path \<in> Path ` set own then t = svc \<and> own' = own
         else accepts_service (Ingress_clone L s svc) t \<and>
           (\<exists>port. servicePort_of svc = Ok port \<and>
              own' = \<lparr>BackendServiceName = Name svc, BackendServicePort = FromInt port, Path = path\<rparr> # own))"

lemma listed_own_paths:
  "listed_backend svc path (firstRule_paths (ings V (Namespace svc, n))) \<longleftrightarrow>
   path \<in> Path ` set (own_paths V (Namespace svc) n (Name svc))"
  by (auto simp: listed_backend_def own_paths_def)

context kube_server
begin

lemma Ingress_Add_exposes:
  assumes "Ingress_Add K L s svc w = (Ok (), w')"
    and "svcs (view w) (service_key svc) = Some svc" "ingresses_keyed (view w)"
  shows "\<exists>t. svcs (view w') (service_key svc) = Some t \<and> Ingress_exposed L s (view w) (view w') svc t"
proof (cases "listed_backend svc (tg_path (ingress_target_of L s svc))
    (firstRule_paths (ings (view w) (Namespace svc, appName_of svc)))")
  case True
  then have "w' = w" using Ingress_Add_effect_lemma [OF assms] by blast
  with True assms(2) show ?thesis by (simp add: Ingress_exposed_def Let_def listed_own_paths)
next
  case False
  with Ingress_Add_effect_lemma [OF assms] obtain j t where
    j: "routes_service svc (ingress_target_of L s svc)
          (firstRule_paths (ings (view w) (Namespace svc, appName_of svc))) j"
    and t: "accepts_service (Ingress_clone L s svc) t"
    and v: "view w' = (view w)\<lparr>ings := (ings (view w))((Namespace svc, appName_of svc) \<mapsto> j),
      svcs := (svcs (view w))(service_key svc \<mapsto> t)\<rparr>" by blast
  with False routes_service_paths [OF j] show ?thesis
    by (auto simp: Ingress_exposed_def Let_def listed_own_paths own_paths_def)
qed

end

context atomic_server
begin

text \<open>Writing an ingress, successfully or not, leaves the services alone.\<close>

lemma ingress_write_svcs:
  "svcs (view (snd (ingress_create K ns i w))) = svcs (view w)"
  "svcs (view (snd (ingress_update K ns i w))) = svcs (view w)"
  "svcs (view (snd (ingress_delete K ns n w))) = svcs (view w)"
proof -
  show "svcs (view (snd (ingress_create K ns i w))) = svcs (view w)"
    by (cases "ingress_create K ns i w"; cases "fst (ingress_create K ns i w)")
      (auto dest!: create_ingress refused_create_ingress)
  show "svcs (view (snd (ingress_update K ns i w))) = svcs (view w)"
    by (cases "ingress_update K ns i w"; cases "fst (ingress_update K ns i w)")
      (auto dest!: update_ingress refused_update_ingress)
  show "svcs (view (snd (ingress_delete K ns n w))) = svcs (view w)"
    by (cases "ingress_delete K ns n w"; cases "fst (ingress_delete K ns n w)")
      (auto dest!: delete_ingress refused_delete_ingress)
qed

lemma Ingress_apply_frame:
  assumes "k \<noteq> service_key svc"
  shows "svcs (view (snd (Ingress_apply K L s svc create i w))) k = svcs (view w) k"
proof (cases "ingress_plan s svc (ingress_target_of L s svc) i")
  case (Ok io)
  show ?thesis
  proof (cases io)
    case (Some i')
    obtain r w1 where w1: "(if create then ingress_create K (Namespace i') i' w
        else ingress_update K (Namespace svc) i' w) = (r, w1)" by fastforce
    then have "svcs (view w1) = svcs (view w)"
      using ingress_write_svcs(1,2) by (metis snd_conv)
    with Ok Some w1 assms show ?thesis
      by (auto simp: Ingress_apply_def patchService_snd_frame split: sum.splits)
  qed (use Ok in \<open>simp add: Ingress_apply_def\<close>)
qed (simp_all add: Ingress_apply_def)

text \<open>
  However \<^verbatim>\<open>Add\<close> ends, it has touched no ingress but that of the application name, and there it has
  only put its own path in front.
\<close>

lemma Ingress_apply_ings:
  assumes "Name i = appName_of svc" "Namespace i = Namespace svc"
  shows "ings (view (snd (Ingress_apply K L s svc create i w))) = ings (view w) \<or>
    (\<exists>j. routes_service svc (ingress_target_of L s svc) (firstRule_paths (Some i)) j \<and>
       Name j = appName_of svc \<and> Namespace j = Namespace svc \<and>
       ings (view (snd (Ingress_apply K L s svc create i w))) = (ings (view w))((Namespace svc, appName_of svc) \<mapsto> j))"
proof (cases "ingress_plan s svc (ingress_target_of L s svc) i")
  case (Ok io)
  show ?thesis
  proof (cases io)
    case (Some i')
    with Ok have plan: "ingress_plan s svc (ingress_target_of L s svc) i = Ok (Some i')" by simp
    have names: "Name i' = appName_of svc" "Namespace i' = Namespace svc"
      using ingress_plan_names [OF plan] assms by auto
    obtain r w1 where w1: "(if create then ingress_create K (Namespace i') i' w
        else ingress_update K (Namespace svc) i' w) = (r, w1)" by fastforce
    show ?thesis
    proof (cases r)
      case (Inl e)
      with w1 have "view w1 = view w"
        by (auto dest: refused_create_ingress refused_update_ingress split: if_splits)
      with plan w1 Inl show ?thesis by (simp add: Ingress_apply_def)
    next
      case (Inr j)
      with w1 names have j: "accepts_ingress i' j"
        and v: "view w1 = (view w)\<lparr>ings := (ings (view w))((Namespace svc, appName_of svc) \<mapsto> j)\<rparr>"
        by (auto dest!: create_ingress update_ingress split: if_splits)
      have "Name j = appName_of svc" "Namespace j = Namespace svc"
        using j names by (simp_all add: accepts_ingress_def same_meta_def)
      with routes_service_accepts [OF plan j] plan w1 Inr v show ?thesis
        by (intro disjI2 exI [of _ j]) (simp add: Ingress_apply_def patchService_snd_others)
    qed
  qed (use Ok in \<open>simp add: Ingress_apply_def\<close>)
qed (simp_all add: Ingress_apply_def)

lemma Ingress_Add_ings:
  assumes "ingresses_keyed (view w)"
  shows "ings (view (snd (Ingress_Add K L s svc w))) = ings (view w) \<or>
    (\<exists>j. routes_service svc (ingress_target_of L s svc)
         (firstRule_paths (ings (view w) (Namespace svc, appName_of svc))) j \<and>
       Name j = appName_of svc \<and> Namespace j = Namespace svc \<and>
       ings (view (snd (Ingress_Add K L s svc w))) = (ings (view w))((Namespace svc, appName_of svc) \<mapsto> j))"
proof (cases "ingress_get K (Namespace svc) (appName_of svc) w")
  case (Inl e)
  have new: "Name (new_ingress svc) = appName_of svc" "Namespace (new_ingress svc) = Namespace svc"
    by (simp_all add: new_ingress_def)
  show ?thesis
  proof (cases e)
    case NotFound
    with Inl get_no_ingress have "ings (view w) (Namespace svc, appName_of svc) = None" by simp
    with Ingress_apply_ings [OF new, of s True w] Inl NotFound show ?thesis by (simp add: Ingress_Add_def)
  qed (use Inl in \<open>simp add: Ingress_Add_def\<close>)
next
  case (Inr i)
  then have i: "ings (view w) (Namespace svc, appName_of svc) = Some i" by (rule get_ingress)
  with assms have "Name i = appName_of svc" "Namespace i = Namespace svc" by (auto simp: ingresses_keyed_def)
  from Ingress_apply_ings [OF this, of s False w] i Inr show ?thesis by (simp add: Ingress_Add_def)
qed

lemma Ingress_Add_others:
  assumes "ingresses_keyed (view w)"
  shows "ingresses_keyed (view (snd (Ingress_Add K L s svc w)))"
    and "(ns, m) \<noteq> service_key svc \<Longrightarrow>
      own_paths (view (snd (Ingress_Add K L s svc w))) ns n m = own_paths (view w) ns n m"
  using Ingress_Add_ings [OF assms, of s svc] assms
  by (auto simp: ingresses_keyed_def own_paths_def dest: routes_service_paths split: if_splits)

end

sublocale atomic_server \<subseteq> ing: expose_strategy view "Ingress_Add K L s" "Ingress_Remove K L s"
    "\<lambda>w. ingresses_keyed (view w)" "\<lambda>w w'. Ingress_exposed L s (view w) (view w')" unannotated for s
proof
  fix svc :: service and w w' :: 'a and k :: key
  show "svcs (view (snd (Ingress_Add K L s svc w))) k = svcs (view w) k" if "k \<noteq> service_key svc"
    using that by (auto simp: Ingress_Add_def Ingress_apply_frame split: sum.splits api_error.splits)
  show "svcs (view (snd (Ingress_Remove K L s svc w))) k = svcs (view w) k" if "k \<noteq> service_key svc"
    using that ingress_write_svcs(3) [of "Namespace svc" "releaseName svc" w]
    by (auto simp: Ingress_Remove_def patchRemove_frame split: prod.splits option.splits api_error.splits)
  show "\<exists>t. svcs (view w') (service_key svc) = Some t \<and> Ingress_exposed L s (view w) (view w') svc t"
    if "Ingress_Add K L s svc w = (Ok (), w')" "svcs (view w) (service_key svc) = Some svc" "ingresses_keyed (view w)"
    using that by (rule Ingress_Add_exposes)
  show "\<exists>t. svcs (view w') (service_key svc) = Some t \<and> unannotated t"
    if "Ingress_Remove K L s svc w = (Ok (), w')" "svcs (view w) (service_key svc) = Some svc"
    using Ingress_Remove_stored [OF that] by (auto simp: unannotated_def accepts_service_annotation)
qed

context atomic_server
begin

lemmas Ingress_run = ing.run_ops_add_survives ing.run_ops_remove_survives ing.run_ops_frame

end

end
