(* ===== verification/Ambassador.thy ===== *)
theory Ambassador
  imports Ingress
begin

text \<open>
  \<^verbatim>\<open>exposestrategy/ambassador.go\<close>: the strategy that describes the route to the Ambassador
  gateway in an annotation of the service. Both operations change the service object they are given,
  and \<^verbatim>\<open>Add\<close> may change the strategy itself, so the definitions return both.
\<close>

record ambassador_strategy =
  am_domain :: string
  am_tlsSecretName :: string
  am_http :: bool
  am_tlsAcme :: bool
  am_urltemplate :: string
  am_pathMode :: string

definition NewAmbassadorStrategy ::
  "('w, 'b) client \<Rightarrow> 'b golib \<Rightarrow> string \<Rightarrow> bool \<Rightarrow> bool \<Rightarrow> string \<Rightarrow> string \<Rightarrow> string \<Rightarrow> 'w \<Rightarrow>
   ambassador_strategy outcome" where
  "NewAmbassadorStrategy K L domain http tlsAcme tlsSecretName urltemplate pathMode w =
     outcome_bind (wildcard_setup K L domain urltemplate w) (\<lambda>(domain', urlformat).
       Ok \<lparr>am_domain = domain', am_tlsSecretName = tlsSecretName, am_http = http, am_tlsAcme = tlsAcme,
           am_urltemplate = urlformat, am_pathMode = pathMode\<rparr>)"

definition Ambassador_isTLSEnabled :: "ambassador_strategy \<Rightarrow> service \<Rightarrow> bool" where
  "Ambassador_isTLSEnabled s svc \<longleftrightarrow>
     annotation svc ''jenkins-x.io/skip.tls'' \<noteq> ''true'' \<and> (am_tlsSecretName s \<noteq> '''' \<or> am_tlsAcme s)"

text \<open>
  The host of the mapping: the path that path mode computes is not used further.
\<close>

definition Ambassador_hostName :: "'b golib \<Rightarrow> ambassador_strategy \<Rightarrow> service \<Rightarrow> string" where
  "Ambassador_hostName L s svc =
     (let mode = annotation svc ''fabric8.io/path.mode'';
          pathMode = (if mode = '''' then am_pathMode s else mode)
      in if pathMode = PathModeUsePath then am_domain s
         else Sprintf (sprintf_rest L) (am_urltemplate s) [hostName_of svc, Namespace svc, am_domain s])"

text \<open>The two YAML documents, as the nested maps given to \<^verbatim>\<open>yaml.Marshal\<close>.\<close>

definition ambassador_mapping :: "service \<Rightarrow> string \<Rightarrow> int \<Rightarrow> yaml_value" where
  "ambassador_mapping svc hostName servicePort =
     YMap [(''apiVersion'', YString ''ambassador/v1''),
           (''kind'', YString ''Mapping''),
           (''host'', YString hostName),
           (''name'', YString (hostName @ ''_'' @ Namespace svc @ ''_mapping'')),
           (''service'', YString (appName_of svc @ ''.'' @ Namespace svc @ '':'' @ Itoa servicePort))]"

definition ambassador_tls_module :: "string \<Rightarrow> yaml_value" where
  "ambassador_tls_module tlsSecretName =
     YMap [(''apiVersion'', YString ''ambassador/v1''),
           (''kind'', YString ''Module''),
           (''name'', YString ''tls''),
           (''config'', YMap [(''server'', YMap [(''enabled'', YString ''True''),
              (''secret'', YString tlsSecretName)])])]"

text \<open>
  \<^verbatim>\<open>if s.tlsAcme && s.tlsSecretName == "" { s.tlsSecretName = "tls-" + appName }\<close>: an
  assignment to the strategy, which outlives the call.
\<close>

definition Ambassador_fixSecret :: "ambassador_strategy \<Rightarrow> service \<Rightarrow> ambassador_strategy" where
  "Ambassador_fixSecret s svc =
     (if am_tlsAcme s \<and> am_tlsSecretName s = '''' then s\<lparr>am_tlsSecretName := ''tls-'' @ appName_of svc\<rparr> else s)"

abbreviation yaml_separator :: string where
  "yaml_separator \<equiv> ''---'' @ [CHR 0x0A]"

text \<open>
  The value of the annotation, and the strategy after it has been computed; an error of
  \<^verbatim>\<open>yaml.Marshal\<close> is returned as it is.
\<close>

definition Ambassador_config ::
  "'b golib \<Rightarrow> ambassador_strategy \<Rightarrow> service \<Rightarrow> string outcome \<times> ambassador_strategy" where
  "Ambassador_config L s svc =
     (case servicePort_of svc of
        Err e \<Rightarrow> (Err e, s)
      | Panic p \<Rightarrow> (Panic p, s)
      | Ok servicePort \<Rightarrow>
          (case yaml_marshal L (ambassador_mapping svc (Ambassador_hostName L s svc) servicePort) of
             Inl e \<Rightarrow> (Err e, s)
           | Inr mapping \<Rightarrow>
               (let s' = Ambassador_fixSecret s svc
                in if Ambassador_isTLSEnabled s' svc then
                     (case yaml_marshal L (ambassador_tls_module (am_tlsSecretName s')) of
                        Inl e \<Rightarrow> (Err e, s')
                      | Inr module \<Rightarrow> (Ok (yaml_separator @ mapping @ yaml_separator @ module), s'))
                   else (Ok (yaml_separator @ mapping), s'))))"

abbreviation ambassadorKey :: string where
  "ambassadorKey \<equiv> ''getambassador.io/config''"

definition Ambassador_Add ::
  "('w, 'b) client \<Rightarrow> 'b golib \<Rightarrow> ambassador_strategy \<Rightarrow> service \<Rightarrow> 'w \<Rightarrow>
   unit outcome \<times> service \<times> ambassador_strategy \<times> 'w" where
  "Ambassador_Add K L s svc w =
     (case Ambassador_config L s svc of
        (Err e, s') \<Rightarrow> (Err e, svc, s', w)
      | (Panic p, s') \<Rightarrow> (Panic p, svc, s', w)
      | (Ok config, s') \<Rightarrow>
          (case mput (Annotations svc) ambassadorKey config of
             None \<Rightarrow> (Panic ''assignment to entry in nil map'', svc, s', w)
           | Some annotations \<Rightarrow>
               (let svc' = svc\<lparr>Annotations := annotations\<rparr>
                in case services_update K (Namespace svc') svc' w of
                     (Inl e, w') \<Rightarrow>
                       (Err (WithMessage (''failed to patch the service '' @ Namespace svc @ ''/'' @ appName_of svc)
                          (ApiErr e)), svc', s', w')
                   | (Inr _, w') \<Rightarrow> (Ok (), svc', s', w'))))"

definition Ambassador_Remove ::
  "('w, 'b) client \<Rightarrow> ambassador_strategy \<Rightarrow> service \<Rightarrow> 'w \<Rightarrow>
   unit outcome \<times> service \<times> ambassador_strategy \<times> 'w" where
  "Ambassador_Remove K s svc w =
     (let svc' = svc\<lparr>Annotations := mdelete (Annotations svc) ambassadorKey\<rparr>
      in case services_update K (Namespace svc') svc' w of
           (Inl e, w') \<Rightarrow>
             (Err (WithMessage (''failed to patch the service '' @ Namespace svc @ ''/'' @ Name svc) (ApiErr e)),
              svc', s, w')
         | (Inr _, w') \<Rightarrow> (Ok (), svc', s, w'))"

section \<open>The strategy contract\<close>

text \<open>
  The strategy is part of the state the operations run on, since \<^verbatim>\<open>Add\<close> assigns to it.
\<close>

definition Ambassador_add_step ::
  "('w, 'b) client \<Rightarrow> 'b golib \<Rightarrow> service \<Rightarrow> 'w \<times> ambassador_strategy \<Rightarrow>
   unit outcome \<times> 'w \<times> ambassador_strategy" where
  "Ambassador_add_step K L svc ws =
     (case ws of (w, s) \<Rightarrow> case Ambassador_Add K L s svc w of (r, _, s', w') \<Rightarrow> (r, w', s'))"

definition Ambassador_remove_step ::
  "('w, 'b) client \<Rightarrow> service \<Rightarrow> 'w \<times> ambassador_strategy \<Rightarrow>
   unit outcome \<times> 'w \<times> ambassador_strategy" where
  "Ambassador_remove_step K svc ws =
     (case ws of (w, s) \<Rightarrow> case Ambassador_Remove K s svc w of (r, _, s', w') \<Rightarrow> (r, w', s'))"

text \<open>
  What \<^verbatim>\<open>Add\<close> promises: the stored service is the given one with the configuration computed for it under
  the key of ambassador.
\<close>

definition Ambassador_exposed :: "'b golib \<Rightarrow> ambassador_strategy \<Rightarrow> service \<Rightarrow> service \<Rightarrow> bool" where
  "Ambassador_exposed L s svc t \<longleftrightarrow>
     (case (fst (Ambassador_config L s svc), Annotations svc) of
        (Ok config, Some m) \<Rightarrow> accepts_service (svc\<lparr>Annotations := Some (fmupd ambassadorKey config m)\<rparr>) t
      | _ \<Rightarrow> False)"

definition Ambassador_hidden :: "service \<Rightarrow> bool" where
  "Ambassador_hidden t \<longleftrightarrow> annotation t ambassadorKey = ''''"

lemma Ambassador_config_strategy:
  "snd (Ambassador_config L s svc) = s \<or> snd (Ambassador_config L s svc) = Ambassador_fixSecret s svc"
  by (auto simp: Ambassador_config_def Let_def split: outcome.splits sum.splits)

lemma Ambassador_config_Ok_strategy:
  "Ambassador_config L s svc = (Ok config, s') \<Longrightarrow> s' = Ambassador_fixSecret s svc"
  by (auto simp: Ambassador_config_def Let_def split: outcome.splits sum.splits if_splits)

text \<open>A service with a port always has a configuration, if the documents can be printed.\<close>

lemma Ambassador_config_total:
  assumes "Ports svc \<noteq> []" "\<And>y. \<exists>t. yaml_marshal L y = Inr t"
  shows "\<exists>c. Ambassador_config L s svc = (Ok c, Ambassador_fixSecret s svc)"
proof -
  obtain port where "servicePort_of svc = Ok port"
    using assms(1) by (cases "Ports svc") (simp_all add: servicePort_of_eq)
  moreover obtain t where "yaml_marshal L (ambassador_mapping svc (Ambassador_hostName L s svc) port) = Inr t"
    using assms(2) by blast
  moreover obtain u where
    "yaml_marshal L (ambassador_tls_module (am_tlsSecretName (Ambassador_fixSecret s svc))) = Inr u"
    using assms(2) by blast
  ultimately show ?thesis by (simp add: Ambassador_config_def Let_def)
qed

lemma ref_yaml: "\<exists>t. yaml_marshal ref_lib y = Inr t"
  by (simp add: ref_lib_def)

text \<open>The cases of a call: it fails before the request, or it sends the service with the annotation.\<close>

lemma Ambassador_Add_cases:
  assumes "Ambassador_Add K L s svc w = (r, svc', s', w')"
  obtains "w' = w" "svc' = svc" "r \<noteq> Ok ()"
  | config m x where "Ambassador_config L s svc = (Ok config, s')" "Annotations svc = Some m"
      "svc' = svc\<lparr>Annotations := Some (fmupd ambassadorKey config m)\<rparr>"
      "services_update K (Namespace svc) svc' w = (Inr x, w')" "r = Ok ()"
  | e where "services_update K (Namespace svc) svc' w = (Inl e, w')" "r \<noteq> Ok ()"
proof -
  obtain c s1 where c: "Ambassador_config L s svc = (c, s1)" by (cases "Ambassador_config L s svc")
  show thesis
  proof (cases c)
    case (Ok config)
    show thesis
    proof (cases "Annotations svc")
      case None
      with assms c Ok show thesis by (intro that(1)) (auto simp: Ambassador_Add_def mput_def)
    next
      case (Some m)
      let ?svc = "svc\<lparr>Annotations := Some (fmupd ambassadorKey config m)\<rparr>"
      obtain y w1 where u: "services_update K (Namespace svc) ?svc w = (y, w1)"
        by (cases "services_update K (Namespace svc) ?svc w")
      show thesis
        using assms c Ok Some u
        by (cases y) (auto simp: Ambassador_Add_def intro: that(2,3))
    qed
  qed (use assms c in \<open>auto simp: Ambassador_Add_def intro: that(1)\<close>)
qed

context kube_server
begin

lemma Ambassador_Add_stored:
  assumes "Ambassador_Add K L s svc w = (Ok (), svc', s', w')"
  shows "\<exists>config t. Ambassador_config L s svc = (Ok config, s') \<and>
     accepts_service svc' t \<and> annotation svc' ambassadorKey = config \<and>
     svc' = svc\<lparr>Annotations := Annotations svc'\<rparr> \<and>
     (\<forall>k. k = ambassadorKey \<or> annotation svc' k = annotation svc k) \<and>
     view w' = (view w)\<lparr>svcs := (svcs (view w))(service_key svc \<mapsto> t)\<rparr>"
  using assms
proof (cases rule: Ambassador_Add_cases)
  case (2 config m x)
  from update_service [OF 2(4)] 2 show ?thesis
    by (intro exI [of _ config] exI [of _ x]) simp
qed simp_all

lemma Ambassador_Remove_stored:
  assumes "Ambassador_Remove K s svc w = (Ok (), svc', s', w')"
  shows "s' = s \<and> svc' = svc\<lparr>Annotations := mdelete (Annotations svc) ambassadorKey\<rparr> \<and>
     (\<exists>t. accepts_service svc' t \<and> view w' = (view w)\<lparr>svcs := (svcs (view w))(service_key svc \<mapsto> t)\<rparr>)"
proof -
  let ?svc = "svc\<lparr>Annotations := mdelete (Annotations svc) ambassadorKey\<rparr>"
  obtain x where "services_update K (Namespace svc) ?svc w = (Inr x, w')" "s' = s" "svc' = ?svc"
    using assms by (auto simp: Ambassador_Remove_def Let_def split: prod.splits sum.splits)
  with update_service show ?thesis by fastforce
qed

end

context atomic_server
begin

lemma services_update_frame:
  assumes "services_update K ns s w = (r, w')" "k \<noteq> (ns, Name s)"
  shows "svcs (view w') k = svcs (view w) k"
  using assms by (cases r) (auto dest!: update_service refused_update_service)

lemma Ambassador_Add_frame:
  assumes "Ambassador_Add K L s svc w = (r, svc', s', w')" "k \<noteq> service_key svc"
  shows "svcs (view w') k = svcs (view w) k"
  using assms(1)
proof (cases rule: Ambassador_Add_cases)
  case (2 config m x)
  with services_update_frame [OF 2(4)] assms(2) show ?thesis by simp
next
  case (3 e)
  then show ?thesis by (simp add: refused_update_service)
qed simp

lemma Ambassador_Remove_frame:
  assumes "Ambassador_Remove K s svc w = (r, svc', s', w')" "k \<noteq> service_key svc"
  shows "svcs (view w') k = svcs (view w) k"
proof -
  let ?svc = "svc\<lparr>Annotations := mdelete (Annotations svc) ambassadorKey\<rparr>"
  have "w' = snd (services_update K (Namespace svc) ?svc w)"
    using assms(1) by (auto simp: Ambassador_Remove_def Let_def split: prod.splits sum.splits)
  then show ?thesis
    using services_update_frame [of "Namespace svc" ?svc w _ w' k] assms(2)
    by (cases "services_update K (Namespace svc) ?svc w") auto
qed

end

sublocale atomic_server \<subseteq> amb: expose_strategy "\<lambda>ws. view (fst ws)" "Ambassador_add_step K L"
    "Ambassador_remove_step K" "\<lambda>_. True" "\<lambda>ws _. Ambassador_exposed L (snd ws)" Ambassador_hidden
proof
  fix svc :: service and ws ws' :: "'a \<times> ambassador_strategy" and k :: key
  obtain w s where ws: "ws = (w, s)" by (cases ws)
  show "svcs (view (fst (snd (Ambassador_add_step K L svc ws)))) k = svcs (view (fst ws)) k"
    if "k \<noteq> service_key svc"
    using that Ambassador_Add_frame by (auto simp: Ambassador_add_step_def ws split: prod.splits)
  show "svcs (view (fst (snd (Ambassador_remove_step K svc ws)))) k = svcs (view (fst ws)) k"
    if "k \<noteq> service_key svc"
    using that Ambassador_Remove_frame by (auto simp: Ambassador_remove_step_def ws split: prod.splits)
  show "\<exists>t. svcs (view (fst ws')) (service_key svc) = Some t \<and> Ambassador_exposed L (snd ws) svc t"
    if add: "Ambassador_add_step K L svc ws = (Ok (), ws')"
  proof -
    obtain svc' where "Ambassador_Add K L s svc w = (Ok (), svc', snd ws', fst ws')"
      using add by (auto simp: Ambassador_add_step_def ws split: prod.splits)
    then show ?thesis
    proof (cases rule: Ambassador_Add_cases)
      case (2 config m x)
      with update_service [OF 2(4)] show ?thesis by (simp add: Ambassador_exposed_def ws)
    qed simp_all
  qed
  show "\<exists>t. svcs (view (fst ws')) (service_key svc) = Some t \<and> Ambassador_hidden t"
    if remove: "Ambassador_remove_step K svc ws = (Ok (), ws')"
  proof -
    obtain svc' where "Ambassador_Remove K s svc w = (Ok (), svc', snd ws', fst ws')"
      using remove by (auto simp: Ambassador_remove_step_def ws split: prod.splits)
    from Ambassador_Remove_stored [OF this] show ?thesis
      by (auto simp: Ambassador_hidden_def accepts_service_annotation)
  qed
qed

context atomic_server
begin

lemmas Ambassador_run = amb.run_ops_add_survives [OF _ _ TrueI] amb.run_ops_remove_survives amb.run_ops_frame

end

section \<open>Properties\<close>

text \<open>
  C10: what a successful \<^verbatim>\<open>AmbassadorStrategy.Add\<close> did: the service is stored with the computed
  configuration under \<^verbatim>\<open>getambassador.io/config\<close>, its other annotations and every other object
  are as before, and it survives operations on other services.
\<close>

theorem Ambassador_Add_effect:
  assumes "atomic_server K L view"
    and "Ambassador_Add K L s svc w = (Ok (), svc', s', w')"
    and "service_key svc \<notin> op_key ` set ops"
  shows "\<exists>t. svcs (view (fst (run_ops (Ambassador_add_step K L) (Ambassador_remove_step K) ops (w', s'))))
       (service_key svc) = Some t \<and>
     Ok (annotation t ambassadorKey) = fst (Ambassador_config L s svc) \<and>
     (\<forall>k. k = ambassadorKey \<or> annotation t k = annotation svc k) \<and>
     view w' = (view w)\<lparr>svcs := (svcs (view w))(service_key svc \<mapsto> t)\<rparr>"
proof -
  from assms(1) have "kube_server K L view" by (simp add: atomic_server_def)
  from kube_server.Ambassador_Add_stored [OF this assms(2)]
  obtain config t where "Ambassador_config L s svc = (Ok config, s')" "accepts_service svc' t"
    "annotation svc' ambassadorKey = config" "\<forall>k. k = ambassadorKey \<or> annotation svc' k = annotation svc k"
    "view w' = (view w)\<lparr>svcs := (svcs (view w))(service_key svc \<mapsto> t)\<rparr>" by blast
  with atomic_server.Ambassador_run(3) [OF assms(1,3), of "(w', s')"] show ?thesis
    by (intro exI [of _ t]) (simp add: accepts_service_annotation)
qed

definition amb_strategy :: ambassador_strategy where
  "amb_strategy = \<lparr>am_domain = ''io'', am_tlsSecretName = '''', am_http = False, am_tlsAcme = True,
     am_urltemplate = ''%[1]s.%[2]s.%[3]s'', am_pathMode = ''''\<rparr>"

lemma Ambassador_Add_example:
  "\<exists>svc' w'. Ambassador_Add ref_client ref_lib amb_strategy example_service ingress_state =
     (Ok (), svc', amb_strategy\<lparr>am_tlsSecretName := ''tls-web''\<rparr>, w')"
proof -
  have "Ambassador_fixSecret amb_strategy example_service = amb_strategy\<lparr>am_tlsSecretName := ''tls-web''\<rparr>"
    by (simp add: Ambassador_fixSecret_def amb_strategy_def ingress_state_facts)
  moreover have "Ports example_service \<noteq> []" by (simp add: example_service_def)
  ultimately have "\<exists>c. Ambassador_config ref_lib amb_strategy example_service =
      (Ok c, amb_strategy\<lparr>am_tlsSecretName := ''tls-web''\<rparr>)"
    using Ambassador_config_total [of example_service ref_lib amb_strategy] by (simp add: ref_yaml)
  moreover obtain m where "Annotations example_service = Some m" by (simp add: example_service_def)
  moreover have "map_of (ref_services ingress_state) (Namespace example_service, Name example_service) = Some example_service"
    by (simp add: ingress_state_def example_service_def)
  ultimately show ?thesis by (auto simp: Ambassador_Add_def ref_client_def Let_def)
qed

theorem Ambassador_Add_effect_witness:
  "\<exists>w' s' t. svcs (ref_view (fst (run_ops (Ambassador_add_step ref_client ref_lib)
         (Ambassador_remove_step ref_client) [] (w', s')))) (''dev'', ''web'') = Some t \<and>
     Ok (annotation t ambassadorKey) = fst (Ambassador_config ref_lib amb_strategy example_service)"
proof -
  from Ambassador_Add_example obtain svc' s' w' where
    "Ambassador_Add ref_client ref_lib amb_strategy example_service ingress_state = (Ok (), svc', s', w')" by blast
  from Ambassador_Add_effect [OF ref.atomic_server_axioms this, of "[]"] show ?thesis
    by (simp add: example_service_def) blast
qed

text \<open>
  C37: under \<^verbatim>\<open>tls-acme\<close> without a configured secret, the first service added fixes the secret of
  the strategy: the configuration of every service added later names the secret of the first one,
  not its own.
\<close>

theorem Ambassador_secret_leaks:
  assumes "am_tlsAcme s" "am_tlsSecretName s = ''''"
    and "Ambassador_Add K L s svc1 w = (Ok (), svc1', s', w')"
    and "annotation svc2 ''jenkins-x.io/skip.tls'' \<noteq> ''true''"
    and "Ambassador_config L s' svc2 = (Ok config, s'')"
  shows "am_tlsSecretName s'' = ''tls-'' @ appName_of svc1 \<and>
     (\<exists>mapping module. yaml_marshal L (ambassador_tls_module (''tls-'' @ appName_of svc1)) = Inr module \<and>
        config = yaml_separator @ mapping @ yaml_separator @ module)"
proof -
  have s': "s' = Ambassador_fixSecret s svc1"
    using assms(3) by (cases rule: Ambassador_Add_cases) (auto dest: Ambassador_config_Ok_strategy)
  then have "am_tlsSecretName s' = ''tls-'' @ appName_of svc1" "am_tlsAcme s'"
    using assms(1,2) by (simp_all add: Ambassador_fixSecret_def)
  then have "Ambassador_fixSecret s' svc2 = s'" "Ambassador_isTLSEnabled s' svc2"
    using assms(4) by (simp_all add: Ambassador_fixSecret_def Ambassador_isTLSEnabled_def)
  with assms(5) \<open>am_tlsSecretName s' = _\<close> show ?thesis
    by (auto simp: Ambassador_config_def Let_def split: outcome.splits sum.splits)
qed

theorem Ambassador_secret_leaks_witness:
  "\<exists>s' s'' svc' w' config. Ambassador_Add ref_client ref_lib amb_strategy example_service ingress_state = (Ok (), svc', s', w') \<and>
     Ambassador_config ref_lib s' (example_service\<lparr>Name := ''other''\<rparr>) = (Ok config, s'') \<and>
     appName_of (example_service\<lparr>Name := ''other''\<rparr>) = ''other'' \<and> am_tlsSecretName s'' = ''tls-web''"
proof -
  let ?svc2 = "example_service\<lparr>Name := ''other''\<rparr>"
  let ?s' = "amb_strategy\<lparr>am_tlsSecretName := ''tls-web''\<rparr>"
  from Ambassador_Add_example obtain svc' w' where add:
    "Ambassador_Add ref_client ref_lib amb_strategy example_service ingress_state = (Ok (), svc', ?s', w')" by blast
  have "Ambassador_fixSecret ?s' ?svc2 = ?s'"
    by (simp add: Ambassador_fixSecret_def)
  then obtain config where config: "Ambassador_config ref_lib ?s' ?svc2 = (Ok config, ?s')"
    using Ambassador_config_total [of ?svc2 ref_lib ?s'] by (auto simp: ref_yaml example_service_def)
  have "am_tlsAcme amb_strategy" "am_tlsSecretName amb_strategy = ''''"
    "annotation ?svc2 ''jenkins-x.io/skip.tls'' \<noteq> ''true''" "appName_of ?svc2 = ''other''"
    by (simp_all add: amb_strategy_def example_service_def appName_of_def releaseName_def)
  with Ambassador_secret_leaks [OF _ _ add _ config] add config show ?thesis
    by (simp add: ingress_state_facts)
qed

text \<open>
  \<^verbatim>\<open>AmbassadorStrategy.Add\<close> of a service that has a port but no annotations at all panics
  (it assigns to an entry of the nil map) and sends nothing; with annotations it cannot panic.
\<close>

theorem Ambassador_Add_nil_annotations:
  assumes "Ports svc \<noteq> []" "Ambassador_config L s svc = (Ok config, s')"
  shows "if Annotations svc = None
     then Ambassador_Add K L s svc w = (Panic ''assignment to entry in nil map'', svc, s', w)
     else \<forall>p. fst (Ambassador_Add K L s svc w) \<noteq> Panic p"
  using assms by (auto simp: Ambassador_Add_def mput_def Let_def split: prod.splits sum.splits)

theorem Ambassador_Add_nil_annotations_witness:
  "\<exists>s'. Ambassador_Add ref_client ref_lib amb_strategy (example_service\<lparr>Annotations := None\<rparr>) lb_state =
     (Panic ''assignment to entry in nil map'', example_service\<lparr>Annotations := None\<rparr>, s', lb_state)"
proof -
  let ?svc = "example_service\<lparr>Annotations := None\<rparr>"
  have ports: "Ports ?svc \<noteq> []" by (simp add: example_service_def)
  obtain config s' where "Ambassador_config ref_lib amb_strategy ?svc = (Ok config, s')"
    using Ambassador_config_total [OF ports, of ref_lib amb_strategy] by (auto simp: ref_yaml)
  from Ambassador_Add_nil_annotations [OF ports this, of ref_client lb_state] show ?thesis by auto
qed

end
