(* ===== verification/OpenShiftServer.thy ===== *)
theory OpenShiftServer
  imports KubeServer
begin

text \<open>
  The OpenShift side of the server: routes and OAuth clients. The laws extend those of a
  Kubernetes server, and the reference server satisfies them.
\<close>

locale openshift_server = atomic_server K L view
  for K :: "('w, 'b) client" and L :: "'b golib" and view :: "'w \<Rightarrow> cluster" +
  fixes OC :: "'w oclient"
  assumes get_route: "routes_get OC ns n w = Inr r \<Longrightarrow> rts (view w) (ns, n) = Some r"
    and get_no_route: "routes_get OC ns n w = Inl NotFound \<Longrightarrow> rts (view w) (ns, n) = None"
    and create_route: "routes_create OC ns r w = (Inr t, w') \<Longrightarrow>
      accepts_route r t \<and> view w' = (view w)\<lparr>rts := (rts (view w))((ns, Name r) \<mapsto> t)\<rparr>"
    and update_route: "routes_update OC ns r w = (Inr t, w') \<Longrightarrow>
      accepts_route r t \<and> view w' = (view w)\<lparr>rts := (rts (view w))((ns, Name r) \<mapsto> t)\<rparr>"
    and delete_route: "routes_delete OC ns n w = (None, w') \<Longrightarrow>
      view w' = (view w)\<lparr>rts := (rts (view w))((ns, n) := None)\<rparr>"
    and delete_no_route: "routes_delete OC ns n w = (Some NotFound, w') \<Longrightarrow>
      view w' = view w \<and> rts (view w) (ns, n) = None"
    and refused_create_route: "routes_create OC ns r w = (Inl e, w') \<Longrightarrow> view w' = view w"
    and refused_update_route: "routes_update OC ns r w = (Inl e, w') \<Longrightarrow> view w' = view w"
    and refused_delete_route: "routes_delete OC ns n w = (Some e, w') \<Longrightarrow> view w' = view w"
    and get_oauthclient: "oauthclients_get OC n w = Inr c \<Longrightarrow> oauths (view w) n = Some c"
    and create_oauthclient: "oauthclients_create OC c w = (Inr d, w') \<Longrightarrow>
      same_meta c d \<and> RedirectURIs d = RedirectURIs c \<and>
      view w' = (view w)\<lparr>oauths := (oauths (view w))(Name c \<mapsto> d)\<rparr>"
    and delete_oauthclient: "oauthclients_delete OC n w = (None, w') \<Longrightarrow>
      view w' = (view w)\<lparr>oauths := (oauths (view w))(n := None)\<rparr>"
    and refused_create_oauthclient: "oauthclients_create OC c w = (Inl e, w') \<Longrightarrow> view w' = view w"
    and refused_delete_oauthclient: "oauthclients_delete OC n w = (Some e, w') \<Longrightarrow> view w' = view w"
begin

text \<open>Writing a route, successfully or not, leaves the services alone.\<close>

lemma routes_write_svcs:
  "svcs (view (snd (routes_create OC ns r w))) = svcs (view w)"
  "svcs (view (snd (routes_update OC ns r w))) = svcs (view w)"
  "svcs (view (snd (routes_delete OC ns n w))) = svcs (view w)"
proof -
  show "svcs (view (snd (routes_create OC ns r w))) = svcs (view w)"
    by (cases "routes_create OC ns r w"; cases "fst (routes_create OC ns r w)")
      (auto dest!: create_route refused_create_route)
  show "svcs (view (snd (routes_update OC ns r w))) = svcs (view w)"
    by (cases "routes_update OC ns r w"; cases "fst (routes_update OC ns r w)")
      (auto dest!: update_route refused_update_route)
  show "svcs (view (snd (routes_delete OC ns n w))) = svcs (view w)"
    by (cases "routes_delete OC ns n w"; cases "fst (routes_delete OC ns n w)")
      (auto dest!: delete_route refused_delete_route)
qed

end

definition ref_oclient :: "ref_state oclient" where
  "ref_oclient =
     \<lparr>routes_get = (\<lambda>ns n w. ref_get (ref_routes w) (ns, n)),
      routes_create = (\<lambda>ns r w. case map_of (ref_routes w) (ns, Name r) of
          Some _ \<Rightarrow> (Inl (Failure ''already exists''), w)
        | None \<Rightarrow> (Inr (stamp r), w\<lparr>ref_routes := AList.update (ns, Name r) (stamp r) (ref_routes w)\<rparr>)),
      routes_update = (\<lambda>ns r w. case map_of (ref_routes w) (ns, Name r) of
          None \<Rightarrow> (Inl NotFound, w)
        | Some _ \<Rightarrow> (Inr (stamp r), w\<lparr>ref_routes := AList.update (ns, Name r) (stamp r) (ref_routes w)\<rparr>)),
      routes_delete = (\<lambda>ns n w. case map_of (ref_routes w) (ns, n) of
          None \<Rightarrow> (Some NotFound, w)
        | Some _ \<Rightarrow> (None, w\<lparr>ref_routes := AList.delete (ns, n) (ref_routes w)\<rparr>)),
      oauthclients_get = (\<lambda>n w. ref_get (ref_oauthclients w) n),
      oauthclients_create = (\<lambda>c w. case map_of (ref_oauthclients w) (Name c) of
          Some _ \<Rightarrow> (Inl (Failure ''already exists''), w)
        | None \<Rightarrow> (Inr (stamp c), w\<lparr>ref_oauthclients := AList.update (Name c) (stamp c) (ref_oauthclients w)\<rparr>)),
      oauthclients_delete = (\<lambda>n w. case map_of (ref_oauthclients w) n of
          None \<Rightarrow> (Some NotFound, w)
        | Some _ \<Rightarrow> (None, w\<lparr>ref_oauthclients := AList.delete n (ref_oauthclients w)\<rparr>))\<rparr>"

lemma stamp_oauth_client [simp]:
  "same_meta (c :: oauth_client) (stamp c)" "RedirectURIs (stamp c) = RedirectURIs c"
  by (simp_all add: same_meta_def stamp_def)

interpretation ref: openshift_server ref_client ref_lib ref_view ref_oclient
  by unfold_locales
    (auto simp: ref_oclient_def ref_get_def ref_view_def update_conv' delete_conv' split: option.splits)

end
