(* ===== verification/Route.thy ===== *)
theory Route
  imports LoadBalancer OpenShiftServer
begin

text \<open>
  \<^verbatim>\<open>exposestrategy/route.go\<close>: on OpenShift a service is exposed by a Route of its own name, and
  annotated with the URL of the host the server chose for it.
\<close>

record route_strategy =
  rs_domain :: string
  rs_host :: string
  rs_usePath :: bool
  rs_http :: bool

definition NewRouteStrategy ::
  "('w, 'b) client \<Rightarrow> 'b golib \<Rightarrow> string \<Rightarrow> string \<Rightarrow> bool \<Rightarrow> bool \<Rightarrow> 'w \<Rightarrow> route_strategy outcome" where
  "NewRouteStrategy K L domain routeHost routeUsePath http w =
     (case typeOfMaster K L w of
        Err e \<Rightarrow> Err (WithMessage ''could not create new route strategy'' e)
      | Panic p \<Rightarrow> Panic p
      | Ok t \<Rightarrow>
          if t = kubernetes
          then Err (ErrMsg ''route strategy is not supported on Kubernetes, please use Ingress strategy'')
          else Ok \<lparr>rs_domain = domain, rs_host = routeHost, rs_usePath = routeUsePath, rs_http = http\<rparr>)"

definition hostNameAndProtocolFromRoute :: "service \<Rightarrow> route \<Rightarrow> string \<times> string" where
  "hostNameAndProtocolFromRoute svc r =
     (let hostName = RouteHost r @ RoutePath r
      in (hostName, if RouteTLS r \<noteq> None then ''https'' else findHttpProtocol svc hostName))"

definition Route_path :: "route_strategy \<Rightarrow> service \<Rightarrow> string" where
  "Route_path s svc = (if rs_usePath s then ''/'' @ Name svc else '''')"

definition edge_redirect :: tls_config where
  "edge_redirect = \<lparr>Termination = ''edge'', InsecureEdgeTerminationPolicy = ''Redirect''\<rparr>"

text \<open>The route made for a service that has none.\<close>

definition new_route :: "route_strategy \<Rightarrow> service \<Rightarrow> route" where
  "new_route s svc =
     \<lparr>Name = Name svc, Namespace = Namespace svc, UID = '''', ResourceVersion = '''',
      Labels = Some (fmupd ''generator'' ''exposecontroller'' (fmupd ''provider'' ''fabric8'' fmempty)),
      Annotations = None, OwnerReferences = [], RouteTo = Name svc, RouteHost = rs_host s,
      RoutePath = Route_path s svc, RouteTLS = (if rs_http s then None else Some edge_redirect)\<rparr>"

text \<open>An existing route after the nil check of its labels.\<close>

definition labelled_route :: "route \<Rightarrow> route" where
  "labelled_route r = r\<lparr>Labels := Some (mmake (Labels r))\<rparr>"

text \<open>The route that replaces \<open>r\<close> when its host or path is not the configured one.\<close>

definition moved_route :: "route_strategy \<Rightarrow> service \<Rightarrow> route \<Rightarrow> route" where
  "moved_route s svc r =
     r\<lparr>Labels := Some (fmupd ''generator'' ''exposecontroller'' (mmake (Labels r))),
       ResourceVersion := '''', RouteHost := rs_host s, RoutePath := Route_path s svc,
       RouteTLS := (if rs_http s then RouteTLS r
         else Some (case RouteTLS r of
             None \<Rightarrow> edge_redirect
           | Some t \<Rightarrow> t\<lparr>Termination := ''edge'', InsecureEdgeTerminationPolicy := ''Redirect''\<rparr>))\<rparr>"

definition create_route_error :: "route \<Rightarrow> api_error \<Rightarrow> goerror" where
  "create_route_error r e = WithMessage (''failed to create route '' @ Namespace r @ ''/'' @ Name r) (ApiErr e)"

definition createRoute :: "'w oclient \<Rightarrow> route \<Rightarrow> 'w \<Rightarrow> route outcome \<times> 'w" where
  "createRoute OC r w =
     (case routes_create OC (Namespace r) r w of
        (Inl e, w') \<Rightarrow> (Err (create_route_error r e), w')
      | (Inr updated, w') \<Rightarrow> (Ok updated, w'))"

text \<open>
  The first half of \<^verbatim>\<open>Add\<close>: create the route, delete and recreate it, update it, or leave it
  alone. The result is the route whose host and path are used afterwards.
\<close>

definition Route_sync ::
  "'w oclient \<Rightarrow> route_strategy \<Rightarrow> service \<Rightarrow> 'w \<Rightarrow> route outcome \<times> 'w" where
  "Route_sync OC s svc w =
     (case routes_get OC (Namespace svc) (Name svc) w of
        Inl NotFound \<Rightarrow> createRoute OC (new_route s svc) w
      | Inl e \<Rightarrow>
          (Err (WithMessage (''could not check for existing route '' @ Namespace svc @ ''/'' @ Name svc) (ApiErr e)), w)
      | Inr r0 \<Rightarrow>
          (let r = labelled_route r0
           in if rs_usePath s \<and> (RoutePath r \<noteq> Route_path s svc \<or> RouteHost r \<noteq> rs_host s) then
                (case routes_delete OC (Namespace r) (Name r) w of
                   (Some e, w') \<Rightarrow>
                     (Err (WithMessage (''failed to delete old '' @ Namespace r @ ''/'' @ Name r) (ApiErr e)), w')
                 | (None, w') \<Rightarrow> createRoute OC (moved_route s svc r) w')
              else if label r ''generator'' = ''exposecontroller'' then
                (case routes_update OC (Namespace r) r w of
                   (Inl e, w') \<Rightarrow>
                     (Err (WithMessage (''failed to update route '' @ Namespace r @ ''/'' @ Name r) (ApiErr e)), w')
                 | (Inr updated, w') \<Rightarrow> (Ok updated, w'))
              else (Ok r, w)))"

text \<open>
  The second half. When the host name is empty the code wraps the error of the successful copy
  before, which is nil, so it returns nil.
\<close>

definition Route_annotate ::
  "('w, 'b) client \<Rightarrow> 'b golib \<Rightarrow> service \<Rightarrow> route \<Rightarrow> 'w \<Rightarrow> unit outcome \<times> 'w" where
  "Route_annotate K L svc r w =
     (case hostNameAndProtocolFromRoute svc r of
        (hostName, protocol) \<Rightarrow>
          if hostName = '''' then
            (return_error (Wrap None ''cannot add service annotation as OpenShift has not defaulted the hostName on the Route.Spec''), w)
          else patchService K L ''failed to send patch'' svc (addServiceAnnotationWithProtocol svc hostName protocol) w)"

definition Route_Add ::
  "('w, 'b) client \<Rightarrow> 'w oclient \<Rightarrow> 'b golib \<Rightarrow> route_strategy \<Rightarrow> service \<Rightarrow> 'w \<Rightarrow> unit outcome \<times> 'w" where
  "Route_Add K OC L s svc w =
     (case Route_sync OC s svc w of
        (Err e, w') \<Rightarrow> (Err e, w')
      | (Panic p, w') \<Rightarrow> (Panic p, w')
      | (Ok r, w') \<Rightarrow> Route_annotate K L svc r w')"

definition Route_Remove ::
  "('w, 'b) client \<Rightarrow> 'w oclient \<Rightarrow> 'b golib \<Rightarrow> route_strategy \<Rightarrow> service \<Rightarrow> 'w \<Rightarrow> unit outcome \<times> 'w" where
  "Route_Remove K OC L s svc w =
     (case routes_delete OC (Namespace svc) (Name svc) w of
        (Some (Failure e), w') \<Rightarrow> (Err (WithMessage ''failed to delete route'' (ApiErr (Failure e))), w')
      | (_, w') \<Rightarrow> patchRemove K L svc w')"

section \<open>The route after the first half\<close>

definition routes_keyed :: "cluster \<Rightarrow> bool" where
  "routes_keyed c \<longleftrightarrow> (\<forall>ns n r. rts c (ns, n) = Some r \<longrightarrow> Namespace r = ns \<and> Name r = n)"

lemma route_simps [simp]:
  "Name (new_route s svc) = Name svc" "Namespace (new_route s svc) = Namespace svc"
  "RouteHost (new_route s svc) = rs_host s" "RoutePath (new_route s svc) = Route_path s svc"
  "Name (moved_route s svc r) = Name r" "Namespace (moved_route s svc r) = Namespace r"
  "RouteHost (moved_route s svc r) = rs_host s" "RoutePath (moved_route s svc r) = Route_path s svc"
  "Name (labelled_route r) = Name r" "Namespace (labelled_route r) = Namespace r"
  "RouteHost (labelled_route r) = RouteHost r" "RoutePath (labelled_route r) = RoutePath r"
  "label (labelled_route r) k = label r k"
  by (simp_all add: new_route_def moved_route_def labelled_route_def)

lemma hostNameAndProtocol_labelled [simp]:
  "hostNameAndProtocolFromRoute svc (labelled_route r) = hostNameAndProtocolFromRoute svc r"
  by (simp add: hostNameAndProtocolFromRoute_def labelled_route_def)

text \<open>
  The route \<open>r\<close> that is stored for a service after \<^verbatim>\<open>Add\<close>, given the route that was stored before.
  A new route leads to the service, at its path under \<^verbatim>\<open>use-path\<close> and at no path otherwise, with the
  configured host (or whatever host the server chooses when none is configured) and with TLS unless
  \<^verbatim>\<open>http\<close> is on. A route at another place than \<^verbatim>\<open>use-path\<close> asks for is made anew there, and keeps its
  target. Any other route keeps its target, place, TLS and labels, and stays exactly as it was if it
  was not generated.
\<close>

definition route_promised :: "route_strategy \<Rightarrow> service \<Rightarrow> route option \<Rightarrow> route \<Rightarrow> bool" where
  "route_promised s svc before r \<longleftrightarrow>
     Name r = Name svc \<and> Namespace r = Namespace svc \<and>
     (case before of
        None \<Rightarrow>
          RouteTo r = Name svc \<and> RoutePath r = Route_path s svc \<and> (rs_host s = '''' \<or> RouteHost r = rs_host s) \<and>
          RouteTLS r = (if rs_http s then None else Some edge_redirect) \<and>
          label r ''generator'' = ''exposecontroller'' \<and> label r ''provider'' = ''fabric8''
      | Some r0 \<Rightarrow>
          RouteTo r = RouteTo r0 \<and>
          (if rs_usePath s \<and> (RoutePath r0 \<noteq> Route_path s svc \<or> RouteHost r0 \<noteq> rs_host s) then
             RoutePath r = Route_path s svc \<and> (rs_host s = '''' \<or> RouteHost r = rs_host s) \<and>
             RouteTLS r = (if rs_http s then RouteTLS r0 else Some edge_redirect) \<and>
             label r ''generator'' = ''exposecontroller''
           else
             RoutePath r = RoutePath r0 \<and> (RouteHost r0 = '''' \<or> RouteHost r = RouteHost r0) \<and>
             RouteTLS r = RouteTLS r0 \<and> (\<forall>k. label r k = label r0 k) \<and>
             (label r0 ''generator'' = ''exposecontroller'' \<or> r = r0)))"

lemma accepts_route_fields:
  assumes "accepts_route r t"
  shows "Name t = Name r" "Namespace t = Namespace r" "RouteTo t = RouteTo r" "RoutePath t = RoutePath r"
    "RouteTLS t = RouteTLS r" "RouteHost r = '''' \<or> RouteHost t = RouteHost r" "label t k = label r k"
  using assms same_meta_label [of r t] by (simp_all add: accepts_route_def same_meta_def)

lemma accepted_new_route:
  assumes "accepts_route (new_route s svc) r"
  shows "route_promised s svc None r"
  using accepts_route_fields [OF assms] by (simp add: route_promised_def new_route_def)

lemma accepted_moved_route:
  assumes "accepts_route (moved_route s svc (labelled_route r0)) r" "Name r0 = Name svc" "Namespace r0 = Namespace svc"
    and "rs_usePath s" "RoutePath r0 \<noteq> Route_path s svc \<or> RouteHost r0 \<noteq> rs_host s"
  shows "route_promised s svc (Some r0) r"
  using assms(2-) accepts_route_fields [OF assms(1)]
  by (auto simp: route_promised_def moved_route_def labelled_route_def edge_redirect_def split: option.splits)

lemma accepted_same_route:
  assumes "accepts_route (labelled_route r0) r" "Name r0 = Name svc" "Namespace r0 = Namespace svc"
    and "\<not> (rs_usePath s \<and> (RoutePath r0 \<noteq> Route_path s svc \<or> RouteHost r0 \<noteq> rs_host s))"
    and "label r0 ''generator'' = ''exposecontroller''"
  shows "route_promised s svc (Some r0) r"
  using assms(2-) accepts_route_fields [OF assms(1)]
  by (auto simp: route_promised_def labelled_route_def)

context openshift_server
begin

lemma createRoute_Ok:
  assumes "createRoute OC r w = (Ok t, w')" "Name r = Name svc" "Namespace r = Namespace svc"
  shows "accepts_route r t \<and> view w' = (view w)\<lparr>rts := (rts (view w))(service_key svc \<mapsto> t)\<rparr>"
  using assms by (auto simp: createRoute_def dest!: create_route split: prod.splits sum.splits)

lemma Route_sync_Ok:
  assumes "Route_sync OC s svc w = (Ok r, w')" "routes_keyed (view w)"
  shows "\<exists>t. hostNameAndProtocolFromRoute svc r = hostNameAndProtocolFromRoute svc t \<and>
     route_promised s svc (rts (view w) (service_key svc)) t \<and>
     view w' = (view w)\<lparr>rts := (rts (view w))(service_key svc \<mapsto> t)\<rparr>"
proof (cases "routes_get OC (Namespace svc) (Name svc) w")
  case (Inl e)
  with assms(1) have "createRoute OC (new_route s svc) w = (Ok r, w')" and e: "e = NotFound"
    by (auto simp: Route_sync_def split: api_error.splits)
  from createRoute_Ok [OF this(1), of svc] get_no_route [OF Inl [unfolded e]] accepted_new_route show ?thesis by auto
next
  case (Inr r0)
  then have r0: "rts (view w) (service_key svc) = Some r0" by (rule get_route)
  with assms(2) have names: "Namespace r0 = Namespace svc" "Name r0 = Name svc" by (auto simp: routes_keyed_def)
  let ?moved = "rs_usePath s \<and> (RoutePath r0 \<noteq> Route_path s svc \<or> RouteHost r0 \<noteq> rs_host s)"
  consider "?moved" | "\<not> ?moved" "label r0 ''generator'' = ''exposecontroller''"
    | "\<not> ?moved" "label r0 ''generator'' \<noteq> ''exposecontroller''" by blast
  then show ?thesis
  proof cases
    case 1
    then obtain w1 where del: "routes_delete OC (Namespace svc) (Name svc) w = (None, w1)"
      and "createRoute OC (moved_route s svc (labelled_route r0)) w1 = (Ok r, w')"
      using assms(1) Inr names by (auto simp: Route_sync_def Let_def split: prod.splits option.splits)
    from createRoute_Ok [OF this(2), of svc] names
    have r: "accepts_route (moved_route s svc (labelled_route r0)) r"
      "view w' = (view w1)\<lparr>rts := (rts (view w1))(service_key svc \<mapsto> r)\<rparr>" by auto
    from accepted_moved_route [OF r(1)] names 1 r(2) delete_route [OF del] r0 show ?thesis
      by (intro exI [of _ r]) simp
  next
    case 2
    then have "routes_update OC (Namespace svc) (labelled_route r0) w = (Inr r, w')"
      using assms(1) Inr names by (auto simp: Route_sync_def Let_def split: prod.splits sum.splits)
    from update_route [OF this] accepted_same_route [of r0 r svc s] 2 names r0 show ?thesis
      by (intro exI [of _ r]) simp
  next
    case 3
    then have "w' = w" "r = labelled_route r0"
      using assms(1) Inr by (auto simp: Route_sync_def Let_def split: if_splits)
    with 3 r0 names show ?thesis by (intro exI [of _ r0]) (auto simp: route_promised_def fun_upd_idem)
  qed
qed

lemma createRoute_svcs: "svcs (view (snd (createRoute OC r w))) = svcs (view w)"
  using routes_write_svcs(1) [of "Namespace r" r w]
  by (auto simp: createRoute_def split: prod.splits sum.splits)

lemma Route_sync_svcs: "svcs (view (snd (Route_sync OC s svc w))) = svcs (view w)"
proof (cases "routes_get OC (Namespace svc) (Name svc) w")
  case (Inl e)
  then show ?thesis by (cases e) (simp_all add: Route_sync_def createRoute_svcs)
next
  case (Inr r0)
  with routes_write_svcs(3) [of "Namespace r0" "Name r0" w]
    routes_write_svcs(2) [of "Namespace r0" "labelled_route r0" w]
  show ?thesis by (auto simp: Route_sync_def Let_def createRoute_svcs split: prod.splits sum.splits option.splits)
qed

end

section \<open>Add and Remove on a server\<close>

text \<open>
  What the stored service looks like after \<^verbatim>\<open>Add\<close>, for the route that is stored with it.
\<close>

definition Route_annotated :: "service \<Rightarrow> route \<Rightarrow> service \<Rightarrow> bool" where
  "Route_annotated svc r t \<longleftrightarrow>
     (case hostNameAndProtocolFromRoute svc r of
        (hostName, protocol) \<Rightarrow>
          if hostName = '''' then t = svc
          else accepts_service (addServiceAnnotationWithProtocol svc hostName protocol) t)"

text \<open>
  What \<^verbatim>\<open>Add\<close> promises of a service, the state \<open>V\<close> before, the state \<open>V'\<close> after and the service \<open>t\<close>
  stored then: the URL is that of the route that is stored, and the route is the promised one.
\<close>

definition Route_exposed :: "route_strategy \<Rightarrow> cluster \<Rightarrow> cluster \<Rightarrow> service \<Rightarrow> service \<Rightarrow> bool" where
  "Route_exposed s V V' svc t \<longleftrightarrow>
     (case rts V' (service_key svc) of
        None \<Rightarrow> False
      | Some r \<Rightarrow> route_promised s svc (rts V (service_key svc)) r \<and> Route_annotated svc r t)"

context openshift_server
begin

lemma Route_annotate_Ok:
  assumes "Route_annotate K L svc r w = (Ok (), w')" "svcs (view w) (service_key svc) = Some svc"
  shows "\<exists>t. Route_annotated svc r t \<and> view w' = (view w)\<lparr>svcs := (svcs (view w))(service_key svc \<mapsto> t)\<rparr>"
proof -
  obtain h p where hp: "hostNameAndProtocolFromRoute svc r = (h, p)" by fastforce
  show ?thesis
  proof (cases "h = ''''")
    case True
    with assms hp show ?thesis
      by (intro exI [of _ svc]) (simp add: Route_annotate_def Route_annotated_def fun_upd_idem)
  next
    case False
    with assms(1) hp have "patchService K L ''failed to send patch'' svc (addServiceAnnotationWithProtocol svc h p) w = (Ok (), w')"
      by (simp add: Route_annotate_def)
    from patchService_stored [OF this assms(2)] False hp show ?thesis by (simp add: Route_annotated_def)
  qed
qed

lemma Route_annotate_frame:
  "k \<noteq> service_key svc \<Longrightarrow> svcs (view (snd (Route_annotate K L svc r w))) k = svcs (view w) k"
  by (simp add: Route_annotate_def patchService_snd_frame split: prod.splits)

lemma Route_Add_Ok:
  assumes "Route_Add K OC L s svc w = (Ok (), w')"
  obtains r w1 where "Route_sync OC s svc w = (Ok r, w1)" "Route_annotate K L svc r w1 = (Ok (), w')"
  using assms by (auto simp: Route_Add_def split: prod.splits outcome.splits)

lemma Route_Add_stored:
  assumes "Route_Add K OC L s svc w = (Ok (), w')" "svcs (view w) (service_key svc) = Some svc"
    "routes_keyed (view w)"
  shows "\<exists>r t. route_promised s svc (rts (view w) (service_key svc)) r \<and> Route_annotated svc r t \<and>
     view w' = (view w)\<lparr>rts := (rts (view w))(service_key svc \<mapsto> r),
                        svcs := (svcs (view w))(service_key svc \<mapsto> t)\<rparr>"
proof -
  obtain r w1 where r: "Route_sync OC s svc w = (Ok r, w1)" "Route_annotate K L svc r w1 = (Ok (), w')"
    using assms(1) by (rule Route_Add_Ok)
  from Route_sync_Ok [OF r(1) assms(3)] obtain r' where
    r': "hostNameAndProtocolFromRoute svc r = hostNameAndProtocolFromRoute svc r'" "route_promised s svc (rts (view w) (service_key svc)) r'"
      "view w1 = (view w)\<lparr>rts := (rts (view w))(service_key svc \<mapsto> r')\<rparr>" by blast
  with assms(2) have "svcs (view w1) (service_key svc) = Some svc" by simp
  from Route_annotate_Ok [OF r(2) this] obtain t where "Route_annotated svc r t"
    "view w' = (view w1)\<lparr>svcs := (svcs (view w1))(service_key svc \<mapsto> t)\<rparr>" by blast
  with r' show ?thesis by (intro exI [of _ r'] exI [of _ t]) (simp add: Route_annotated_def)
qed

lemma Route_Remove_stored:
  assumes "Route_Remove K OC L s svc w = (Ok (), w')" "svcs (view w) (service_key svc) = Some svc"
  shows "\<exists>t. unannotated t \<and>
     view w' = (view w)\<lparr>rts := (rts (view w))(service_key svc := None),
                        svcs := (svcs (view w))(service_key svc \<mapsto> t)\<rparr>"
proof -
  obtain r w1 where d: "routes_delete OC (Namespace svc) (Name svc) w = (r, w1)"
    and patch: "patchRemove K L svc w1 = (Ok (), w')" and r: "r = None \<or> r = Some NotFound"
    using assms(1) by (auto simp: Route_Remove_def split: prod.splits option.splits api_error.splits)
  have v1: "view w1 = (view w)\<lparr>rts := (rts (view w))(service_key svc := None)\<rparr>"
    using r d delete_route delete_no_route by (auto simp: fun_upd_idem)
  then have "svcs (view w1) (service_key svc) = Some svc" using assms(2) by simp
  from patchService_stored [OF patch [unfolded patchRemove_def] this] obtain t where
    "accepts_service (removeServiceAnnotation svc) t"
    "view w' = (view w1)\<lparr>svcs := (svcs (view w1))(service_key svc \<mapsto> t)\<rparr>" by blast
  with v1 show ?thesis
    by (intro exI [of _ t]) (simp add: accepts_service_annotation unannotated_def)
qed

end

sublocale openshift_server \<subseteq> rt: expose_strategy view "Route_Add K OC L s" "Route_Remove K OC L s"
    "\<lambda>w. routes_keyed (view w)" "\<lambda>w w'. Route_exposed s (view w) (view w')" unannotated for s
proof
  fix svc :: service and w w' :: 'w and k :: key
  show "svcs (view (snd (Route_Add K OC L s svc w))) k = svcs (view w) k" if "k \<noteq> service_key svc"
    using that Route_sync_svcs [of s svc w]
    by (auto simp: Route_Add_def Route_annotate_frame split: prod.splits outcome.splits)
  show "svcs (view (snd (Route_Remove K OC L s svc w))) k = svcs (view w) k" if "k \<noteq> service_key svc"
    using that routes_write_svcs(3) [of "Namespace svc" "Name svc" w]
    by (auto simp: Route_Remove_def patchRemove_frame split: prod.splits option.splits api_error.splits)
  show "\<exists>t. svcs (view w') (service_key svc) = Some t \<and> Route_exposed s (view w) (view w') svc t"
    if "Route_Add K OC L s svc w = (Ok (), w')" "svcs (view w) (service_key svc) = Some svc" "routes_keyed (view w)"
    using Route_Add_stored [OF that] by (auto simp: Route_exposed_def)
  show "\<exists>t. svcs (view w') (service_key svc) = Some t \<and> unannotated t"
    if "Route_Remove K OC L s svc w = (Ok (), w')" "svcs (view w) (service_key svc) = Some svc"
    using Route_Remove_stored [OF that] by auto
qed

text \<open>
  C9: what a successful \<^verbatim>\<open>RouteStrategy.Add\<close> of a stored service did. A route of the service's name is
  stored: a new one leads to the service and has the configured host (if any), path and TLS; an old
  one keeps its target and is made anew at the configured place when \<^verbatim>\<open>use-path\<close> asks for another
  place than it has. The service carries the URL of the stored route, made from its host and path,
  and no other object has changed. If the stored route has neither host nor path the service is left
  as it was, and yet the call reports success: the error it means to return wraps a nil error.
\<close>

theorem Route_Add_effect:
  assumes "openshift_server K L view OC" "Route_Add K OC L s svc w = (Ok (), w')"
    and "svcs (view w) (service_key svc) = Some svc" "routes_keyed (view w)"
  shows "\<exists>r t. route_promised s svc (rts (view w) (service_key svc)) r \<and> Route_annotated svc r t \<and>
     view w' = (view w)\<lparr>rts := (rts (view w))(service_key svc \<mapsto> r),
                        svcs := (svcs (view w))(service_key svc \<mapsto> t)\<rparr>"
  using assms(2-) by (rule openshift_server.Route_Add_stored [OF assms(1)])

definition route_example :: "string \<Rightarrow> route_strategy" where
  "route_example host = \<lparr>rs_domain = '''', rs_host = host, rs_usePath = False, rs_http = True\<rparr>"

definition route_state :: ref_state where
  "route_state = lb_state\<lparr>ref_services := [((''dev'', ''web''), example_service)]\<rparr>"

lemma route_state_facts:
  "svcs (ref_view route_state) (service_key example_service) = Some example_service"
  "routes_keyed (ref_view route_state)"
  "routes_get ref_oclient (Namespace example_service) (Name example_service) route_state = Inl NotFound"
  by (simp_all add: ref_view_def route_state_def lb_state_def example_service_def routes_keyed_def
      ref_oclient_def ref_get_def)

lemma createRoute_ref:
  "map_of (ref_routes w) (Namespace r, Name r) = None \<Longrightarrow>
   createRoute ref_oclient r w =
     (Ok (stamp r), w\<lparr>ref_routes := AList.update (Namespace r, Name r) (stamp r) (ref_routes w)\<rparr>)"
  by (simp add: createRoute_def ref_oclient_def)

theorem Route_Add_effect_witness:
  "\<exists>w' r. Route_Add ref_client ref_oclient ref_lib (route_example '''') example_service route_state = (Ok (), w') \<and>
     svcs (ref_view w') (''dev'', ''web'') = Some example_service \<and> rts (ref_view w') (''dev'', ''web'') = Some r \<and>
     annotation example_service ExposeAnnotationKey = ''''"
proof -
  let ?s = "route_example ''''"
  have "Route_path ?s example_service = ''''" "map_of (ref_routes route_state) k = None" for k
    by (simp_all add: Route_path_def route_example_def route_state_def lb_state_def)
  then have add: "\<exists>w'. Route_Add ref_client ref_oclient ref_lib ?s example_service route_state = (Ok (), w') \<and>
      ref_services w' = ref_services route_state"
    using route_state_facts(3) createRoute_ref [of route_state "new_route ?s example_service"]
    by (simp add: Route_Add_def Route_sync_def Route_annotate_def hostNameAndProtocolFromRoute_def stamp_def)
      (simp add: new_route_def route_example_def)
  then obtain w' where w': "Route_Add ref_client ref_oclient ref_lib ?s example_service route_state = (Ok (), w')"
    "ref_services w' = ref_services route_state" by blast
  from Route_Add_effect [OF ref.openshift_server_axioms w'(1) route_state_facts(1,2)] w' show ?thesis
    by (auto simp: example_service_def ref_view_def route_state_def)
qed

context openshift_server
begin

lemma Route_annotate_rts: "rts (view (snd (Route_annotate K L svc r w))) = rts (view w)"
  by (simp add: Route_annotate_def patchService_snd_others split: prod.splits)

text \<open>However \<^verbatim>\<open>Add\<close> ends, it has touched no route but that of the service's name, and no ingress.\<close>

lemma createRoute_frame:
  "k \<noteq> (Namespace r, Name r) \<Longrightarrow> rts (view (snd (createRoute OC r w))) k = rts (view w) k"
  "ings (view (snd (createRoute OC r w))) = ings (view w)"
  by (cases "routes_create OC (Namespace r) r w"; cases "fst (routes_create OC (Namespace r) r w)";
      auto simp: createRoute_def dest!: create_route refused_create_route)+

lemma routes_delete_frame:
  assumes "routes_delete OC ns n w = (r, w')"
  shows "k \<noteq> (ns, n) \<Longrightarrow> rts (view w') k = rts (view w) k" "ings (view w') = ings (view w)"
  using assms by (cases r; auto dest!: delete_route refused_delete_route)+

lemma routes_update_frame:
  assumes "routes_update OC ns r w = (x, w')"
  shows "k \<noteq> (ns, Name r) \<Longrightarrow> rts (view w') k = rts (view w) k" "ings (view w') = ings (view w)"
  using assms by (cases x; auto dest!: update_route refused_update_route)+

lemma Route_sync_others:
  assumes "routes_keyed (view w)"
  shows "k \<noteq> service_key svc \<Longrightarrow> rts (view (snd (Route_sync OC s svc w))) k = rts (view w) k"
    and "ings (view (snd (Route_sync OC s svc w))) = ings (view w)"
proof -
  have "(k \<noteq> service_key svc \<longrightarrow> rts (view (snd (Route_sync OC s svc w))) k = rts (view w) k) \<and>
    ings (view (snd (Route_sync OC s svc w))) = ings (view w)"
  proof (cases "routes_get OC (Namespace svc) (Name svc) w")
    case (Inl e)
    then show ?thesis by (cases e) (simp_all add: Route_sync_def createRoute_frame)
  next
    case (Inr r0)
    from get_route [OF Inr] assms have names: "Namespace r0 = Namespace svc" "Name r0 = Name svc"
      by (auto simp: routes_keyed_def)
    with Inr show ?thesis
      by (auto simp: Route_sync_def Let_def createRoute_frame dest: routes_delete_frame routes_update_frame
          split: prod.splits option.splits sum.splits)
  qed
  then show "k \<noteq> service_key svc \<Longrightarrow> rts (view (snd (Route_sync OC s svc w))) k = rts (view w) k"
    "ings (view (snd (Route_sync OC s svc w))) = ings (view w)" by blast+
qed

lemma Route_annotate_ings: "ings (view (snd (Route_annotate K L svc r w))) = ings (view w)"
  by (simp add: Route_annotate_def patchService_snd_others split: prod.splits)

lemma Route_Add_others:
  assumes "routes_keyed (view w)"
  shows "k \<noteq> service_key svc \<Longrightarrow> rts (view (snd (Route_Add K OC L s svc w))) k = rts (view w) k"
    and "ings (view (snd (Route_Add K OC L s svc w))) = ings (view w)"
  using Route_sync_others(1) [OF assms, of k svc s] Route_sync_others(2) [OF assms, of s svc]
    Route_annotate_rts Route_annotate_ings
  by (auto simp: Route_Add_def split: prod.splits outcome.splits)

lemma Route_Add_foreign:
  assumes "routes_get OC (Namespace svc) (Name svc) w = Inr r" "label r ''generator'' \<noteq> ''exposecontroller''"
    and "rs_usePath s \<Longrightarrow> RoutePath r = Route_path s svc \<and> RouteHost r = rs_host s"
  shows "rts (view (snd (Route_Add K OC L s svc w))) = rts (view w)"
proof -
  have "Route_sync OC s svc w = (Ok (labelled_route r), w)"
    using assms by (auto simp: Route_sync_def Let_def)
  then show ?thesis by (simp add: Route_Add_def Route_annotate_rts)
qed

end

text \<open>
  A route that exposecontroller did not generate is left alone by \<^verbatim>\<open>RouteStrategy.Add\<close>,
  whatever the call answers, unless \<^verbatim>\<open>use-path\<close> is on and its host or path is not the
  configured one.
\<close>

theorem Route_Add_keeps_foreign:
  assumes "openshift_server K L view OC"
    and "routes_get OC (Namespace svc) (Name svc) w = Inr r"
    and "label r ''generator'' \<noteq> ''exposecontroller''"
    and "rs_usePath s \<Longrightarrow> RoutePath r = Route_path s svc \<and> RouteHost r = rs_host s"
  shows "rts (view (snd (Route_Add K OC L s svc w))) = rts (view w)"
  using assms(2-) by (rule openshift_server.Route_Add_foreign [OF assms(1)])

definition foreign_route :: route where
  "foreign_route = (new_route (route_example ''h.io'') example_service)\<lparr>Labels := None\<rparr>"

definition foreign_state :: ref_state where
  "foreign_state = route_state\<lparr>ref_routes := [((''dev'', ''web''), foreign_route)]\<rparr>"

theorem Route_Add_keeps_foreign_witness:
  "rts (ref_view (snd (Route_Add ref_client ref_oclient ref_lib (route_example ''other'') example_service foreign_state)))
     (''dev'', ''web'') = Some foreign_route"
proof -
  have get: "routes_get ref_oclient (Namespace example_service) (Name example_service) foreign_state = Inr foreign_route"
    by (simp add: ref_oclient_def ref_get_def foreign_state_def example_service_def)
  have label: "label foreign_route ''generator'' \<noteq> ''exposecontroller''" by (simp add: foreign_route_def)
  have "rts (ref_view (snd (Route_Add ref_client ref_oclient ref_lib (route_example ''other'')
      example_service foreign_state))) = rts (ref_view foreign_state)"
    using ref.openshift_server_axioms get label
    by (rule Route_Add_keeps_foreign) (simp add: route_example_def)
  then show ?thesis by (simp add: ref_view_def foreign_state_def)
qed

text \<open>
  With paths and no configured host, a route that OpenShift gave a host is deleted and made again by
  every call, however often: the host it has never is the empty one that is asked for.
\<close>

lemma Route_sync_churns:
  assumes "rs_usePath s" "rs_host s = []"
    and "routes_get OC (Namespace svc) (Name svc) w = Inr r" "RouteHost r \<noteq> []"
  shows "Route_sync OC s svc w =
    (case routes_delete OC (Namespace r) (Name r) w of
       (Some e, w') \<Rightarrow> (Err (WithMessage (''failed to delete old '' @ Namespace r @ ''/'' @ Name r) (ApiErr e)), w')
     | (None, w') \<Rightarrow> createRoute OC (moved_route s svc (labelled_route r)) w')"
  using assms by (auto simp: Route_sync_def Let_def split: prod.splits option.splits)

text \<open>
  C38: moving a route is not atomic. When the old route has been deleted and the server then refuses
  to create the new one, \<^verbatim>\<open>RouteStrategy.Add\<close> returns the error and the service has no route.
\<close>

theorem Route_Add_move_loses_route:
  assumes "openshift_server K L view OC"
    and "routes_get OC (Namespace svc) (Name svc) w = Inr r"
    and "Namespace r = Namespace svc" "Name r = Name svc"
    and "rs_usePath s" "RoutePath r \<noteq> Route_path s svc \<or> RouteHost r \<noteq> rs_host s"
    and "routes_delete OC (Namespace svc) (Name svc) w = (None, w1)"
    and "routes_create OC (Namespace svc) (moved_route s svc (labelled_route r)) w1 = (Inl e, w2)"
  shows "\<exists>err. Route_Add K OC L s svc w = (Err err, w2) \<and> rts (view w2) (service_key svc) = None"
proof -
  have "Route_Add K OC L s svc w = (Err (create_route_error (moved_route s svc (labelled_route r)) e), w2)"
    using assms(2-) by (auto simp: Route_Add_def Route_sync_def createRoute_def Let_def)
  moreover have "view w2 = (view w)\<lparr>rts := (rts (view w))(service_key svc := None)\<rparr>"
    using openshift_server.refused_create_route [OF assms(1,8)] openshift_server.delete_route [OF assms(1,7)] by simp
  ultimately show ?thesis by simp
qed

definition full_oclient :: "ref_state oclient" where
  "full_oclient = ref_oclient\<lparr>routes_create := (\<lambda>ns r w. (Inl (Failure ''quota exceeded''), w))\<rparr>"

interpretation full: openshift_server ref_client ref_lib ref_view full_oclient
  by unfold_locales
    (auto simp: full_oclient_def ref_oclient_def ref_get_def ref_view_def update_conv' delete_conv' split: option.splits)

theorem Route_Add_move_loses_route_witness:
  "\<exists>err w'. Route_Add ref_client full_oclient ref_lib ((route_example ''other'')\<lparr>rs_usePath := True\<rparr>)
       example_service foreign_state = (Err err, w') \<and> rts (ref_view w') (''dev'', ''web'') = None"
proof -
  let ?s = "(route_example ''other'')\<lparr>rs_usePath := True\<rparr>"
  let ?w = "foreign_state\<lparr>ref_routes := []\<rparr>"
  have names: "Namespace example_service = ''dev''" "Name example_service = ''web''"
    by (simp_all add: example_service_def)
  have facts: "routes_get full_oclient ''dev'' ''web'' foreign_state = Inr foreign_route"
    "Namespace foreign_route = ''dev''" "Name foreign_route = ''web''"
    "rs_usePath ?s" "RouteHost foreign_route \<noteq> rs_host ?s"
    "routes_delete full_oclient ''dev'' ''web'' foreign_state = (None, ?w)"
    "routes_create full_oclient ''dev'' x ?w = (Inl (Failure ''quota exceeded''), ?w)" for x
    by (simp_all add: full_oclient_def ref_oclient_def ref_get_def foreign_state_def foreign_route_def
        new_route_def route_example_def names)
  from Route_Add_move_loses_route [OF full.openshift_server_axioms, of example_service foreign_state foreign_route
      ?s ?w "Failure ''quota exceeded''" ?w] facts
  show ?thesis unfolding names by blast
qed

end
