(* ===== verification/Strategy.thy ===== *)
theory Strategy
  imports Ambassador Route
begin

text \<open>
  \<^verbatim>\<open>exposestrategy/strategy.go\<close> and \<^verbatim>\<open>NewAutoStrategy\<close> of \<^verbatim>\<open>exposestrategy/auto.go\<close>: how the
  configured name becomes a strategy, and the calls through the interface.
\<close>

section \<open>Strategies\<close>

text \<open>The implementations of the interface; the clients and the encoder are arguments instead.\<close>

datatype strategy =
    LoadBalancerStrategy
  | NodePortStrategy node_port_strategy
  | IngressStrategy ingress_strategy
  | RouteStrategy route_strategy
  | AmbassadorStrategy ambassador_strategy

definition NewLoadBalancerStrategy :: "strategy outcome" where
  "NewLoadBalancerStrategy = Ok LoadBalancerStrategy"

text \<open>The parameters that \<^verbatim>\<open>New\<close> and \<^verbatim>\<open>NewAutoStrategy\<close> hand on unchanged.\<close>

record new_args =
  na_internalDomain :: string
  na_urltemplate :: string
  na_nodeIP :: string
  na_routeHost :: string
  na_pathMode :: string
  na_routeUsePath :: bool
  na_http :: bool
  na_tlsAcme :: bool
  na_tlsSecretName :: string
  na_tlsUseWildcard :: bool
  na_ingressClass :: string

text \<open>\<^verbatim>\<open>strategy, err := ...; if err != nil { return nil, errors.Wrap(err, msg) }; return strategy, nil\<close>\<close>

fun wrap_new :: "string \<Rightarrow> ('s \<Rightarrow> strategy) \<Rightarrow> 's outcome \<Rightarrow> strategy outcome" where
  "wrap_new msg mk (Ok s) = Ok (mk s)"
| "wrap_new msg mk (Err e) = Err (WithMessage msg e)"
| "wrap_new msg mk (Panic p) = Panic p"

definition unknown_strategy :: "string \<Rightarrow> goerror" where
  "unknown_strategy exposer =
     ErrMsg (''unknown expose strategy '' @ [CHR 0x27] @ exposer @ [CHR 0x27] @
       '', must be one of [Auto Ingress Route NodePort LoadBalancer]'')"

lemma auto_rule_named:
  "getAutoDefaultExposeRule K L w = Ok exposer \<Longrightarrow> exposer = ''route'' \<or> exposer = ''ingress''"
  by (auto simp: getAutoDefaultExposeRule_def split: outcome.splits if_splits)

lemma ToLower_Nil_iff [simp]: "ToLower s = '''' \<longleftrightarrow> s = ''''"
  by (cases s rule: ToLower.cases) simp_all

text \<open>
  The two functions call each other: \<^verbatim>\<open>New\<close> with an empty name asks for the automatic
  strategy, which calls \<^verbatim>\<open>New\<close> again with the name it found; that name is never empty.
  The OpenShift client made for the route strategy is taken to be usable: the code drops the error
  of its constructor.
\<close>

function (sequential)
  New :: "('w, 'b) client \<Rightarrow> 'b golib \<Rightarrow> string \<Rightarrow> string \<Rightarrow> new_args \<Rightarrow> 'w \<Rightarrow> strategy outcome" and
  NewAutoStrategy :: "('w, 'b) client \<Rightarrow> 'b golib \<Rightarrow> string \<Rightarrow> new_args \<Rightarrow> 'w \<Rightarrow> strategy outcome"
where
  "New K L exposer domain a w =
     (if ToLower exposer = ''ambassador'' then
        wrap_new ''failed to create ambassador expose strategy'' AmbassadorStrategy
          (NewAmbassadorStrategy K L domain (na_http a) (na_tlsAcme a) (na_tlsSecretName a) (na_urltemplate a)
             (na_pathMode a) w)
      else if ToLower exposer = ''loadbalancer'' then
        wrap_new ''failed to create load balancer expose strategy'' id NewLoadBalancerStrategy
      else if ToLower exposer = ''nodeport'' then
        wrap_new ''failed to create node port expose strategy'' NodePortStrategy
          (NewNodePortStrategy K L (na_nodeIP a) w)
      else if ToLower exposer = ''ingress'' then
        wrap_new ''failed to create ingress expose strategy'' IngressStrategy
          (NewIngressStrategy K L domain (na_internalDomain a) (na_http a) (na_tlsAcme a) (na_tlsSecretName a)
             (na_tlsUseWildcard a) (na_urltemplate a) (na_pathMode a) (na_ingressClass a) w)
      else if ToLower exposer = ''route'' then
        wrap_new ''failed to create ingress expose strategy'' RouteStrategy
          (NewRouteStrategy K L domain (na_routeHost a) (na_routeUsePath a) (na_http a) w)
      else if ToLower exposer = '''' then
        wrap_new ''failed to create auto expose strategy'' id (NewAutoStrategy K L domain a w)
      else Err (unknown_strategy exposer))"
| "NewAutoStrategy K L domain a w =
     (case getAutoDefaultExposeRule K L w of
        Err e \<Rightarrow> Err (WithMessage
          (''failed to automatically get exposer rule.  consider setting '' @ [CHR 0x27] @ ''exposer'' @ [CHR 0x27] @
           '' type in config.yml'') e)
      | Panic p \<Rightarrow> Panic p
      | Ok exposer \<Rightarrow>
          (case (if domain = '''' \<and> ToLower exposer = ingress_rule then getAutoDefaultDomain K L w else Ok domain) of
             Err e \<Rightarrow> Err (WithMessage ''failed to get a domain'' e)
           | Panic p \<Rightarrow> Panic p
           | Ok domain' \<Rightarrow> New K L exposer domain' a w))"
  by pat_completeness auto
termination
proof (relation "measure (\<lambda>x. case x of Inl (_, _, exposer, _) \<Rightarrow> if exposer = '''' then 2 else 0 | Inr _ \<Rightarrow> 1)")
qed (auto dest: auto_rule_named)

declare New.simps [simp del] NewAutoStrategy.simps [simp del]


section \<open>Calls through the interface\<close>

text \<open>
  A call returns its error, the service object as the call left it, and the strategy as the call
  left it; only the ambassador strategy changes either.
\<close>

definition strategy_Add ::
  "('w, 'b) client \<Rightarrow> 'w oclient \<Rightarrow> 'b golib \<Rightarrow> strategy \<Rightarrow> service \<Rightarrow> 'w \<Rightarrow>
   unit outcome \<times> service \<times> strategy \<times> 'w" where
  "strategy_Add K OC L st svc w =
     (case st of
        LoadBalancerStrategy \<Rightarrow> (case LoadBalancer_Add K L svc w of (r, w') \<Rightarrow> (r, svc, st, w'))
      | NodePortStrategy s \<Rightarrow> (case NodePort_Add K L s svc w of (r, w') \<Rightarrow> (r, svc, st, w'))
      | IngressStrategy s \<Rightarrow> (case Ingress_Add K L s svc w of (r, w') \<Rightarrow> (r, svc, st, w'))
      | RouteStrategy s \<Rightarrow> (case Route_Add K OC L s svc w of (r, w') \<Rightarrow> (r, svc, st, w'))
      | AmbassadorStrategy s \<Rightarrow>
          (case Ambassador_Add K L s svc w of (r, svc', s', w') \<Rightarrow> (r, svc', AmbassadorStrategy s', w')))"

definition strategy_Remove ::
  "('w, 'b) client \<Rightarrow> 'w oclient \<Rightarrow> 'b golib \<Rightarrow> strategy \<Rightarrow> service \<Rightarrow> 'w \<Rightarrow>
   unit outcome \<times> service \<times> strategy \<times> 'w" where
  "strategy_Remove K OC L st svc w =
     (case st of
        LoadBalancerStrategy \<Rightarrow> (case LoadBalancer_Remove K L svc w of (r, w') \<Rightarrow> (r, svc, st, w'))
      | NodePortStrategy s \<Rightarrow> (case NodePort_Remove K L s svc w of (r, w') \<Rightarrow> (r, svc, st, w'))
      | IngressStrategy s \<Rightarrow> (case Ingress_Remove K L s svc w of (r, w') \<Rightarrow> (r, svc, st, w'))
      | RouteStrategy s \<Rightarrow> (case Route_Remove K OC L s svc w of (r, w') \<Rightarrow> (r, svc, st, w'))
      | AmbassadorStrategy s \<Rightarrow>
          (case Ambassador_Remove K s svc w of (r, svc', s', w') \<Rightarrow> (r, svc', AmbassadorStrategy s', w')))"

section \<open>Properties of New\<close>

lemma wrap_new_eq_Ok: "wrap_new msg mk r = Ok st \<longleftrightarrow> (\<exists>s. r = Ok s \<and> st = mk s)"
  by (cases r) auto

text \<open>What the cluster must look like for a strategy that \<^verbatim>\<open>New\<close> returned.\<close>

definition strategy_fits :: "('w, 'b) client \<Rightarrow> 'b golib \<Rightarrow> 'w \<Rightarrow> string \<Rightarrow> strategy \<Rightarrow> bool" where
  "strategy_fits K L w exposer st \<longleftrightarrow>
     (case st of
        LoadBalancerStrategy \<Rightarrow> ToLower exposer = ''loadbalancer''
      | NodePortStrategy s \<Rightarrow> ToLower exposer = ''nodeport''
      | IngressStrategy s \<Rightarrow> ToLower exposer \<in> {''ingress'', ''''} \<and> typeOfMaster K L w = Ok kubernetes \<and> ig_domain s \<noteq> ''''
      | RouteStrategy s \<Rightarrow> ToLower exposer \<in> {''route'', ''''} \<and> typeOfMaster K L w = Ok openShift
      | AmbassadorStrategy s \<Rightarrow> ToLower exposer = ''ambassador'' \<and> typeOfMaster K L w = Ok kubernetes \<and> am_domain s \<noteq> '''')"

lemma ToLower_names:
  "ToLower '''' = ''''" "ToLower ''route'' = ''route''" "ToLower ''ingress'' = ''ingress''" "ToLower ''Auto'' = ''auto''"
  by code_simp+

lemma New_not_auto:
  assumes "exposer \<noteq> ''''"
  shows "New K L exposer domain a w = Ok st \<Longrightarrow> strategy_fits K L w exposer st"
  using assms
  by (auto simp: New.simps wrap_new_eq_Ok strategy_fits_def NewLoadBalancerStrategy_def NewAmbassadorStrategy_def
      NewIngressStrategy_def NewRouteStrategy_def outcome_bind_eq_Ok
      dest: wildcard_setup_Ok split: if_splits outcome.splits)
    (metis masterType.exhaust)

lemma New_Ok_fits:
  assumes "New K L exposer domain a w = Ok st"
  shows "strategy_fits K L w exposer st"
proof (cases "exposer = ''''")
  case False
  with assms show ?thesis by (simp add: New_not_auto)
next
  case True
  with assms have "NewAutoStrategy K L domain a w = Ok st" by (simp add: New.simps wrap_new_eq_Ok)
  then obtain exposer' domain' where new: "getAutoDefaultExposeRule K L w = Ok exposer'" "New K L exposer' domain' a w = Ok st"
    by (auto simp: NewAutoStrategy.simps split: outcome.splits if_splits)
  from auto_rule_named [OF new(1)] have "exposer' = ''route'' \<or> exposer' = ''ingress''" .
  then have "ToLower exposer' = exposer'" "exposer' \<noteq> ''''" "exposer' = ''route'' \<or> exposer' = ''ingress''"
    by (auto simp: ToLower_names simp del: ToLower.simps(1,2))
  with New_not_auto [OF _ new(2)] True show ?thesis
    by (auto simp: strategy_fits_def split: strategy.splits)
qed

text \<open>
  C8: a strategy is only ever made for a cluster it can work on. Whatever name \<^verbatim>\<open>New\<close> is given,
  in any letter case or empty, it returns the strategy of that name; an ingress or ambassador
  strategy only where the master is not OpenShift, and then with a domain; a route strategy only on
  OpenShift.
\<close>

theorem New_fits:
  assumes "New K L exposer domain a w = Ok st"
  shows "strategy_fits K L w exposer st"
  using assms by (rule New_Ok_fits)

definition example_args :: new_args where
  "example_args = \<lparr>na_internalDomain = '''', na_urltemplate = '''', na_nodeIP = '''', na_routeHost = '''',
     na_pathMode = '''', na_routeUsePath = False, na_http = False, na_tlsAcme = False, na_tlsSecretName = '''',
     na_tlsUseWildcard = False, na_ingressClass = ''''\<rparr>"

lemma New_auto_openShift:
  assumes "typeOfMaster K L w = Ok openShift"
  shows "New K L '''' domain a w = Ok (RouteStrategy
     \<lparr>rs_domain = domain, rs_host = na_routeHost a, rs_usePath = na_routeUsePath a, rs_http = na_http a\<rparr>)"
  using assms
  by (simp add: New.simps NewAutoStrategy.simps getAutoDefaultExposeRule_def ToLower_names NewRouteStrategy_def
      del: ToLower.simps(1,2))

lemma New_auto_kubernetes:
  assumes "typeOfMaster K L w = Ok kubernetes"
  shows "New K L '''' domain a w =
     wrap_new ''failed to create auto expose strategy'' id
       (case (if domain = '''' then getAutoDefaultDomain K L w else Ok domain) of
          Ok d \<Rightarrow> New K L ''ingress'' d a w
        | Err e \<Rightarrow> Err (WithMessage ''failed to get a domain'' e)
        | Panic p \<Rightarrow> Panic p)"
  using assms
  by (simp add: New.simps [of _ _ "''''"] NewAutoStrategy.simps getAutoDefaultExposeRule_def ToLower_names
      del: ToLower.simps(1,2))

text \<open>
  Automatic choice. With no name configured, \<^verbatim>\<open>New\<close> gives the route strategy on OpenShift,
  and elsewhere exactly what the name \<^verbatim>\<open>ingress\<close> gives with the configured domain, or with the
  domain detected from the cluster when none is configured; a failed detection is the error.
\<close>

theorem New_auto:
  "New K L '''' domain a w =
     (if typeOfMaster K L w = Ok openShift then
        Ok (RouteStrategy \<lparr>rs_domain = domain, rs_host = na_routeHost a, rs_usePath = na_routeUsePath a,
          rs_http = na_http a\<rparr>)
      else wrap_new ''failed to create auto expose strategy'' id
        (case (if domain = '''' then getAutoDefaultDomain K L w else Ok domain) of
           Ok d \<Rightarrow> New K L ''ingress'' d a w
         | Err e \<Rightarrow> Err (WithMessage ''failed to get a domain'' e)
         | Panic p \<Rightarrow> Panic p))"
proof (cases "typeOfMaster K L w = Ok openShift")
  case True
  then show ?thesis by (simp add: New_auto_openShift)
next
  case False
  then have "typeOfMaster K L w = Ok kubernetes"
    by (simp add: typeOfMaster_def Let_def split: if_splits)
  then show ?thesis by (simp add: New_auto_kubernetes)
qed

definition named_strategies :: "string list" where
  "named_strategies = [''ambassador'', ''loadbalancer'', ''nodeport'', ''ingress'', ''route'', '''']"

text \<open>
  Any other name is an error, and so is the name \<^verbatim>\<open>Auto\<close>, which the text of that error lists
  among the names to use.
\<close>

theorem New_unknown:
  "(New K L exposer domain a w = Err (unknown_strategy exposer) \<or> ToLower exposer \<in> set named_strategies) \<and>
   New K L ''Auto'' domain a w = Err (unknown_strategy ''Auto'')"
  by (auto simp: New.simps named_strategies_def ToLower_names simp del: ToLower.simps(1,2))

theorem New_fits_witness:
  "\<exists>st. New ref_client ref_lib '''' '''' example_args (route_state\<lparr>ref_paths := [''/oapi'']\<rparr>) = Ok st \<and>
     strategy_fits ref_client ref_lib (route_state\<lparr>ref_paths := [''/oapi'']\<rparr>) '''' st"
proof -
  let ?w = "route_state\<lparr>ref_paths := [''/oapi'']\<rparr>"
  have "typeOfMaster ref_client ref_lib ?w = Ok openShift"
    by (simp add: typeOfMaster_def ref_client_def ref_lib_def)
  from New_auto_openShift [OF this] obtain st where st: "New ref_client ref_lib '''' '''' example_args ?w = Ok st" by blast
  from st New_fits [OF st] show ?thesis by blast
qed


section \<open>The contract of the interface\<close>

definition strategy_add_step ::
  "('w, 'b) client \<Rightarrow> 'w oclient \<Rightarrow> 'b golib \<Rightarrow> service \<Rightarrow> 'w \<times> strategy \<Rightarrow> unit outcome \<times> 'w \<times> strategy" where
  "strategy_add_step K OC L svc ws =
     (case ws of (w, st) \<Rightarrow> case strategy_Add K OC L st svc w of (r, _, st', w') \<Rightarrow> (r, w', st'))"

definition strategy_remove_step ::
  "('w, 'b) client \<Rightarrow> 'w oclient \<Rightarrow> 'b golib \<Rightarrow> service \<Rightarrow> 'w \<times> strategy \<Rightarrow> unit outcome \<times> 'w \<times> strategy" where
  "strategy_remove_step K OC L svc ws =
     (case ws of (w, st) \<Rightarrow> case strategy_Remove K OC L st svc w of (r, _, st', w') \<Rightarrow> (r, w', st'))"

lemma strategy_Add_world:
  "snd (snd (snd (strategy_Add K OC L st svc w))) =
     (case st of
        LoadBalancerStrategy \<Rightarrow> snd (LoadBalancer_Add K L svc w)
      | NodePortStrategy s \<Rightarrow> snd (NodePort_Add K L s svc w)
      | IngressStrategy s \<Rightarrow> snd (Ingress_Add K L s svc w)
      | RouteStrategy s \<Rightarrow> snd (Route_Add K OC L s svc w)
      | AmbassadorStrategy s \<Rightarrow> snd (snd (snd (Ambassador_Add K L s svc w))))"
  by (cases st) (simp_all add: strategy_Add_def split: prod.splits)

lemma strategy_Remove_world:
  "snd (snd (snd (strategy_Remove K OC L st svc w))) =
     (case st of
        LoadBalancerStrategy \<Rightarrow> snd (LoadBalancer_Remove K L svc w)
      | NodePortStrategy s \<Rightarrow> snd (NodePort_Remove K L s svc w)
      | IngressStrategy s \<Rightarrow> snd (Ingress_Remove K L s svc w)
      | RouteStrategy s \<Rightarrow> snd (Route_Remove K OC L s svc w)
      | AmbassadorStrategy s \<Rightarrow> snd (snd (snd (Ambassador_Remove K s svc w))))"
  by (cases st) (simp_all add: strategy_Remove_def split: prod.splits)

context openshift_server
begin

lemma strategy_Add_frame:
  assumes "k \<noteq> service_key svc"
  shows "svcs (view (snd (snd (snd (strategy_Add K OC L st svc w))))) k = svcs (view w) k"
proof (cases st)
  case (AmbassadorStrategy s)
  then show ?thesis
    using Ambassador_Add_frame [OF _ assms, of s w]
    by (cases "Ambassador_Add K L s svc w") (simp add: strategy_Add_world)
qed (simp_all add: strategy_Add_world lb.add_frame np.add_frame ing.add_frame rt.add_frame assms)

lemma strategy_Remove_frame:
  assumes "k \<noteq> service_key svc"
  shows "svcs (view (snd (snd (snd (strategy_Remove K OC L st svc w))))) k = svcs (view w) k"
proof (cases st)
  case (AmbassadorStrategy s)
  then show ?thesis
    using Ambassador_Remove_frame [OF _ assms, of s w]
    by (cases "Ambassador_Remove K s svc w") (simp add: strategy_Remove_world)
qed (simp_all add: strategy_Remove_world lb.remove_frame np.remove_frame ing.remove_frame rt.remove_frame assms)

end

sublocale openshift_server \<subseteq> any: strategy_frame "\<lambda>ws. view (fst ws)" "strategy_add_step K OC L"
    "strategy_remove_step K OC L"
proof
  fix svc :: service and ws :: "'w \<times> strategy" and k :: key
  assume k: "k \<noteq> service_key svc"
  show "svcs (view (fst (snd (strategy_add_step K OC L svc ws)))) k = svcs (view (fst ws)) k"
    using strategy_Add_frame [OF k, of "snd ws" "fst ws"]
    by (cases ws) (auto simp: strategy_add_step_def split: prod.splits)
  show "svcs (view (fst (snd (strategy_remove_step K OC L svc ws)))) k = svcs (view (fst ws)) k"
    using strategy_Remove_frame [OF k, of "snd ws" "fst ws"]
    by (cases ws) (auto simp: strategy_remove_step_def split: prod.splits)
qed

context openshift_server
begin

lemmas strategy_run_frame = any.run_ops_frame

end

text \<open>
  C7: isolation. Under any strategy, any sequence of additions and removals, failed ones included,
  leaves every service that none of them names exactly as it was stored.
\<close>

theorem strategy_isolation:
  assumes "openshift_server K L view OC" "k \<notin> op_key ` set ops"
  shows "svcs (view (fst (run_ops (strategy_add_step K OC L) (strategy_remove_step K OC L) ops (w, st)))) k =
     svcs (view w) k"
  using openshift_server.strategy_run_frame [OF assms, of "(w, st)"] by simp

theorem strategy_isolation_witness:
  "svcs (ref_view (fst (run_ops (strategy_add_step ref_client ref_oclient ref_lib)
       (strategy_remove_step ref_client ref_oclient ref_lib) [OpAdd np_service, OpRemove np_service]
       (lb_state, LoadBalancerStrategy)))) (''dev'', ''api'') = svcs (ref_view lb_state) (''dev'', ''api'')"
  by (rule strategy_isolation [OF ref.openshift_server_axioms]) (simp add: np_service_def example_service_def)

end
