(* ===== verification/AppServer.thy ===== *)
theory AppServer
  imports OpenShiftServer
begin

text \<open>
  What the controller relies on of the server for ConfigMaps and Deployments, as a further
  extension of the server laws. A listing of a namespace holds exactly the objects stored there,
  once each.
\<close>

definition keyed :: "(key \<rightharpoonup> 'a object_meta_scheme) \<Rightarrow> bool" where
  "keyed m \<longleftrightarrow> (\<forall>ns n x. m (ns, n) = Some x \<longrightarrow> Namespace x = ns \<and> Name x = n)"

definition object_key :: "'a object_meta_scheme \<Rightarrow> key" where
  "object_key x = (Namespace x, Name x)"

text \<open>\<open>xs\<close> lists the objects of \<open>m\<close> in a namespace.\<close>

definition lists_namespace :: "(key \<rightharpoonup> 'a object_meta_scheme) \<Rightarrow> string \<Rightarrow> 'a object_meta_scheme list \<Rightarrow> bool" where
  "lists_namespace m ns xs \<longleftrightarrow>
     distinct (map object_key xs) \<and>
     (\<forall>x. x \<in> set xs \<longleftrightarrow> Namespace x = ns \<and> m (object_key x) = Some x)"

definition accepts_deployment :: "deployment \<Rightarrow> deployment \<Rightarrow> bool" where
  "accepts_deployment d e \<longleftrightarrow> same_meta d e \<and> Containers e = Containers d"

locale app_server = openshift_server K L view OC
  for K :: "('w, 'b) client" and L :: "'b golib" and view :: "'w \<Rightarrow> cluster" and OC :: "'w oclient" +
  assumes get_config_map: "configmaps_get K ns n w = Inr c \<Longrightarrow> cmaps (view w) (ns, n) = Some c"
    and list_config_maps: "configmaps_list K ns w = Inr cs \<Longrightarrow> ns \<noteq> '''' \<Longrightarrow> keyed (cmaps (view w)) \<Longrightarrow>
      lists_namespace (cmaps (view w)) ns cs"
    and update_config_map: "configmaps_update K ns c w = (Inr c', w') \<Longrightarrow>
      accepts_config_map c c' \<and> view w' = (view w)\<lparr>cmaps := (cmaps (view w))((ns, Name c) \<mapsto> c')\<rparr>"
    and refused_update_config_map: "configmaps_update K ns c w = (Inl e, w') \<Longrightarrow> view w' = view w"
    and list_deployments: "deployments_list K ns w = Inr ds \<Longrightarrow> ns \<noteq> '''' \<Longrightarrow> keyed (deps (view w)) \<Longrightarrow>
      lists_namespace (deps (view w)) ns ds"
    and update_deployment: "deployments_update K ns d w = (Inr d', w') \<Longrightarrow>
      accepts_deployment d d' \<and> view w' = (view w)\<lparr>deps := (deps (view w))((ns, Name d) \<mapsto> d')\<rparr>"
    and refused_update_deployment: "deployments_update K ns d w = (Inl e, w') \<Longrightarrow> view w' = view w"

lemma ref_list_lists:
  assumes "ref_list xs ns = Inr ys" "ns \<noteq> ''''" "keyed (map_of xs)"
  shows "lists_namespace (map_of xs) ns ys"
proof -
  let ?zs = "filter (\<lambda>((ns', n), x). ns = '''' \<or> ns' = ns) (AList.clearjunk xs)"
  have ys: "ys = map snd ?zs" using assms(1) by (simp add: ref_list_def)
  have stored: "map_of xs k = Some x" if "(k, x) \<in> set (AList.clearjunk xs)" for k x
    using that by (metis distinct_clearjunk map_of_clearjunk map_of_is_SomeI)
  have keys: "object_key x = k" if "(k, x) \<in> set (AList.clearjunk xs)" for k x
    using stored [OF that] assms(3) by (cases k) (auto simp: keyed_def object_key_def)
  have "map object_key ys = map fst ?zs"
    unfolding ys by (auto simp: keys)
  moreover have "distinct (map fst ?zs)"
    by (rule distinct_map_filter) (rule distinct_clearjunk)
  moreover have "x \<in> set ys \<longleftrightarrow> Namespace x = ns \<and> map_of xs (object_key x) = Some x" for x
  proof
    assume "x \<in> set ys"
    then obtain n where n: "((ns, n), x) \<in> set (AList.clearjunk xs)" using assms(2) by (auto simp: ys)
    from stored [OF n] keys [OF n] show "Namespace x = ns \<and> map_of xs (object_key x) = Some x"
      by (simp add: object_key_def)
  next
    assume x: "Namespace x = ns \<and> map_of xs (object_key x) = Some x"
    then have "(object_key x, x) \<in> set (AList.clearjunk xs)"
      by (metis map_of_SomeD map_of_clearjunk)
    with x show "x \<in> set ys" by (force simp: ys object_key_def)
  qed
  ultimately show ?thesis by (simp add: lists_namespace_def)
qed

lemma accepts_deployment_stamp [simp]: "accepts_deployment d (stamp d)"
  by (simp add: accepts_deployment_def same_meta_def stamp_def)

interpretation ref: app_server ref_client ref_lib ref_view ref_oclient
  by unfold_locales
    (auto simp: ref_client_def ref_get_def ref_view_def update_conv' ref_list_lists split: option.splits)

end
