(* ===== verification/Deployments.thy ===== *)
theory Deployments
  imports AppServer "HOL-Library.Multiset"
begin

text \<open>
  \<^verbatim>\<open>controller/deployments.go\<close>: after a ConfigMap changed, the deployments that name it in
  \<^verbatim>\<open>configmap.fabric8.io/update-on-change\<close> are updated with a token of its data in an environment
  variable, so that the cluster rolls them.
\<close>

section \<open>Names of environment variables\<close>

definition env_char :: "char \<Rightarrow> bool" where
  "env_char ch \<longleftrightarrow>
     (of_char ch :: nat) \<in> {65..90} \<or> (of_char ch :: nat) \<in> {48..57}"

text \<open>The loop; the flag is \<^verbatim>\<open>lastCharValid\<close>.\<close>

fun envVar_scan :: "string \<Rightarrow> bool \<Rightarrow> string" where
  "envVar_scan [] lastCharValid = ''''"
| "envVar_scan (ch # s) lastCharValid =
     (if env_char ch then ch # envVar_scan s True
      else if lastCharValid then CHR ''_'' # envVar_scan s False
      else envVar_scan s False)"

definition convertToEnvVarName :: "string \<Rightarrow> string" where
  "convertToEnvVarName text = envVar_scan (ToUpper text) False"


section \<open>The token of a ConfigMap\<close>

text \<open>The order in which the map is visited is the library's; sorting removes it.\<close>

definition convertConfigMapToToken :: "'b golib \<Rightarrow> config_map \<Rightarrow> string" where
  "convertConfigMapToToken L cm =
     (let values = (case Data cm of
            None \<Rightarrow> [] | Some m \<Rightarrow> map (\<lambda>(k, v). k @ ''='' @ v) (range_order L m))
      in Join (sort values) '';'')"


section \<open>Containers\<close>

definition configmapEnvar :: "string \<Rightarrow> string" where
  "configmapEnvar cmName = ''FABRIC8_'' @ convertToEnvVarName cmName @ ''_CONFIGMAP''"

text \<open>One container and one variable: the container after it, and whether anything changed.\<close>

definition updateContainer :: "string \<Rightarrow> string \<Rightarrow> container \<Rightarrow> container \<times> bool" where
  "updateContainer envar version c =
     (if \<exists>e \<in> set (Env c). EnvName e = envar then
        (c\<lparr>Env := map (\<lambda>e. if EnvName e = envar then e\<lparr>EnvValue := version\<rparr> else e) (Env c)\<rparr>,
         \<exists>e \<in> set (Env c). EnvName e = envar \<and> EnvValue e \<noteq> version)
      else (c\<lparr>Env := Env c @ [\<lparr>EnvName = envar, EnvValue = version\<rparr>]\<rparr>, True))"

text \<open>The outer loop, over the names in the annotation.\<close>

fun updateContainers_loop ::
  "string list \<Rightarrow> string \<Rightarrow> container list \<Rightarrow> bool \<Rightarrow> container list \<times> bool" where
  "updateContainers_loop [] version containers answer = (containers, answer)"
| "updateContainers_loop (cmName # names) version containers answer =
     (let rs = map (updateContainer (configmapEnvar cmName) version) containers
      in updateContainers_loop names version (map fst rs) (answer \<or> (\<exists>r \<in> set rs. snd r)))"

definition updateContainers :: "container list \<Rightarrow> string \<Rightarrow> string \<Rightarrow> container list \<times> bool" where
  "updateContainers containers annotationValue configMapVersion =
     updateContainers_loop (Split annotationValue CHR '','') configMapVersion containers False"


section \<open>The rolling upgrade\<close>

abbreviation updateOnChangeAnnotation :: string where
  "updateOnChangeAnnotation \<equiv> ''configmap.fabric8.io/update-on-change''"

definition matches_config_map :: "string \<Rightarrow> deployment \<Rightarrow> bool" where
  "matches_config_map configMapName d \<longleftrightarrow>
     annotation d updateOnChangeAnnotation \<noteq> '''' \<and>
     configMapName \<in> set (Split (annotation d updateOnChangeAnnotation) CHR '','')"

definition upgraded :: "string \<Rightarrow> deployment \<Rightarrow> deployment" where
  "upgraded version d =
     d\<lparr>Containers := fst (updateContainers (Containers d) (annotation d updateOnChangeAnnotation) version)\<rparr>"

fun rollingUpgrade_loop ::
  "('w, 'b) client \<Rightarrow> string \<Rightarrow> string \<Rightarrow> string \<Rightarrow> deployment list \<Rightarrow> 'w \<Rightarrow> unit outcome \<times> 'w" where
  "rollingUpgrade_loop K ns configMapName version [] w = (Ok (), w)"
| "rollingUpgrade_loop K ns configMapName version (d # ds) w =
     (if matches_config_map configMapName d then
        (case deployments_update K ns (upgraded version d) w of
           (Inl e, w') \<Rightarrow> (Err (WithMessage ''update deployment failed'' (ApiErr e)), w')
         | (Inr _, w') \<Rightarrow> rollingUpgrade_loop K ns configMapName version ds w')
      else rollingUpgrade_loop K ns configMapName version ds w)"

definition rollingUpgradeDeployments ::
  "('w, 'b) client \<Rightarrow> 'b golib \<Rightarrow> config_map \<Rightarrow> 'w \<Rightarrow> unit outcome \<times> 'w" where
  "rollingUpgradeDeployments K L cm w =
     (case deployments_list K (Namespace cm) w of
        Inl e \<Rightarrow> (Err (WithMessage ''failed to list deployments'' (ApiErr e)), w)
      | Inr ds \<Rightarrow> rollingUpgrade_loop K (Namespace cm) (Name cm) (convertConfigMapToToken L cm) ds w)"


section \<open>Properties of the names\<close>

lemma env_char_not_underscore [simp]: "\<not> env_char CHR ''_''"
  by (simp add: env_char_def)

lemma envVar_scan_chars: "\<forall>c \<in> set (envVar_scan s b). env_char c \<or> c = CHR ''_''"
  by (induction s arbitrary: b) auto

lemma envVar_scan_starts: "envVar_scan s False \<noteq> [] \<Longrightarrow> env_char (hd (envVar_scan s False))"
  by (induction s) (auto split: if_splits)

lemma envVar_scan_no_double:
  "envVar_scan s b = p @ CHR ''_'' # r \<Longrightarrow> r = [] \<or> env_char (hd r)"
proof (induction s arbitrary: b p)
  case (Cons ch s)
  show ?case
  proof (cases p)
    case Nil
    with Cons.prems have "envVar_scan s False = r \<or> envVar_scan (ch # s) b = envVar_scan s False"
      by (auto split: if_splits)
    with Cons Nil envVar_scan_starts [of s] show ?thesis by (metis append_Nil)
  next
    case (Cons c p')
    with Cons.IH Cons.prems show ?thesis by (auto split: if_splits) (metis append_Cons)+
  qed
qed simp

text \<open>
  \<^verbatim>\<open>convertToEnvVarName\<close> gives upper-case letters, digits and underscores only, never
  begins with an underscore, and never has two in a row.
\<close>

theorem convertToEnvVarName_shape:
  "let name = convertToEnvVarName text in
   list_all (\<lambda>c. env_char c \<or> c = CHR ''_'') name \<and>
   \<not> HasPrefix name ''_'' \<and> \<not> Contains name ''__''"
proof -
  let ?n = "convertToEnvVarName text"
  have "\<not> HasPrefix ?n ''_''"
  proof
    assume "HasPrefix ?n ''_''"
    then obtain r where "?n = CHR ''_'' # r" by (auto simp: HasPrefix_iff)
    with envVar_scan_starts [of "ToUpper text"] show False by (simp add: convertToEnvVarName_def)
  qed
  moreover have "\<not> Contains ?n ''__''"
  proof
    assume "Contains ?n ''__''"
    then obtain p q where "?n = p @ CHR ''_'' # CHR ''_'' # q" by (auto simp: Contains_iff)
    with envVar_scan_no_double [of "ToUpper text" False p "CHR ''_'' # q"] show False
      by (simp add: convertToEnvVarName_def)
  qed
  ultimately show ?thesis
    using envVar_scan_chars by (simp add: list_all_iff convertToEnvVarName_def)
qed

section \<open>Properties of the token\<close>

lemma mset_range_order:
  assumes "range_ok L" "range_ok L'"
  shows "mset (range_order L m) = mset (range_order L' m)"
proof -
  have "distinct (range_order L m)" "distinct (range_order L' m)"
    using assms by (auto simp: range_ok_def distinct_map)
  moreover have "set (range_order L m) = set (range_order L' m)"
    using assms by (auto simp: range_ok_def) (metis map_of_eq_Some_iff)+
  ultimately show ?thesis by (simp add: set_eq_iff_mset_eq_distinct [symmetric])
qed

lemma sort_cong_mset: "mset xs = mset ys \<Longrightarrow> sort xs = sort (ys :: string list)"
  by (metis mset_sort properties_for_sort sorted_sort)

lemma range_order_single:
  assumes "range_ok L"
  shows "range_order L (fmupd k v fmempty) = [(k, v)]"
proof -
  let ?xs = "range_order L (fmupd k v fmempty)"
  have d: "distinct (map fst ?xs)" and m: "map_of ?xs = [k \<mapsto> v]"
    using assms by (simp_all add: range_ok_def fun_eq_iff)
  then have "set ?xs = {(k, v)}"
    by (auto simp: map_of_eq_Some_iff [OF d, symmetric] split: if_splits)
  moreover have "distinct ?xs" using d by (simp add: distinct_map)
  ultimately show ?thesis
    by (metis distinct.simps(2) distinct_length_2_or_more empty_iff insert_iff list.exhaust list.set(1) list.set_intros(1) list.set_intros(2))
qed

lemma mset_range_order_pair:
  assumes "range_ok L" "k \<noteq> k'"
  shows "mset (range_order L (fmupd k v (fmupd k' v' fmempty))) = {#(k, v), (k', v')#}"
proof -
  let ?xs = "range_order L (fmupd k v (fmupd k' v' fmempty))"
  have d: "distinct (map fst ?xs)" and m: "map_of ?xs = [k' \<mapsto> v', k \<mapsto> v]"
    using assms by (simp_all add: range_ok_def fun_eq_iff)
  then have "set ?xs = set [(k, v), (k', v')]"
    using assms(2) by (auto simp: map_of_eq_Some_iff [OF d, symmetric] split: if_splits)
  moreover have "distinct ?xs" using d by (simp add: distinct_map)
  ultimately have "mset ?xs = mset [(k, v), (k', v')]"
    using assms(2) by (intro set_eq_iff_mset_eq_distinct [THEN iffD1]) simp_all
  then show ?thesis by simp
qed

text \<open>
  C40: the token of a ConfigMap depends on its data only: although Go visits the map in an
  unspecified order, two visits of the same data give the same token.
\<close>

theorem token_order_independent:
  assumes "range_ok L" "range_ok L'" "Data cm = Data cm'"
  shows "convertConfigMapToToken L cm = convertConfigMapToToken L' cm'"
proof (cases "Data cm'")
  case (Some m)
  have "sort (map f (range_order L m)) = sort (map f (range_order L' m))" for f :: "string \<times> string \<Rightarrow> string"
    using mset_range_order [OF assms(1,2), of m] by (intro sort_cong_mset) simp
  with Some assms(3) show ?thesis by (simp add: convertConfigMapToToken_def)
qed (simp add: convertConfigMapToToken_def assms(3))

definition empty_config_map :: config_map where
  "empty_config_map = \<lparr>Name = ''web'', Namespace = ''dev'', UID = '''', ResourceVersion = '''', Labels = None,
     Annotations = None, OwnerReferences = [], Data = None\<rparr>"

text \<open>The same library, visiting every map the other way round.\<close>

definition backward_lib :: "buffer golib" where
  "backward_lib = ref_lib\<lparr>range_order := (\<lambda>m. rev (range_order ref_lib m))\<rparr>"

lemma range_ok_backward_lib: "range_ok backward_lib"
proof -
  have "map_of (rev xs) = map_of xs" if "distinct (map fst xs)" for xs :: "(string \<times> string) list"
    using that by (intro map_of_inject_set [THEN iffD2]) (simp_all add: rev_map [symmetric])
  with range_ok_ref_lib show ?thesis by (simp add: range_ok_def backward_lib_def rev_map [symmetric])
qed

theorem token_order_independent_witness:
  "convertConfigMapToToken ref_lib (empty_config_map\<lparr>Data := Some (fmupd ''a'' ''1'' (fmupd ''b'' ''2'' fmempty))\<rparr>) =
   convertConfigMapToToken backward_lib (empty_config_map\<lparr>Data := Some (fmupd ''a'' ''1'' (fmupd ''b'' ''2'' fmempty))\<rparr>)"
  using range_ok_ref_lib range_ok_backward_lib by (rule token_order_independent) simp

text \<open>
  The token is not unique: two ConfigMaps with different data can have the same token, because
  the separators are not escaped.
\<close>

theorem token_not_unique:
  assumes "range_ok L"
  shows "\<exists>cm cm'. Data cm \<noteq> Data cm' \<and> convertConfigMapToToken L cm = convertConfigMapToToken L cm'"
proof -
  let ?m = "fmupd ''a'' ''1;b=2'' fmempty"
  let ?m' = "fmupd ''a'' ''1'' (fmupd ''b'' ''2'' fmempty)"
  let ?kv = "\<lambda>(k, v). k @ ''='' @ (v :: string)"
  have "sort (map ?kv (range_order L ?m')) = sort (map ?kv [(''a'', ''1''), (''b'', ''2'')])"
    using mset_range_order_pair [OF assms, of "''a''" "''b''" "''1''" "''2''"]
    by (intro sort_cong_mset) simp
  moreover have "sort [''a=1'', ''b=2''] = [''a=1'', ''b=2'']" by (simp add: less_eq_char_def)
  ultimately have "convertConfigMapToToken L (empty_config_map\<lparr>Data := Some ?m\<rparr>) =
      convertConfigMapToToken L (empty_config_map\<lparr>Data := Some ?m'\<rparr>)"
    by (simp add: convertConfigMapToToken_def range_order_single [OF assms])
  moreover have "?m \<noteq> ?m'"
  proof
    assume "?m = ?m'"
    then have "fmlookup ?m ''b'' = fmlookup ?m' ''b''" by simp
    then show False by simp
  qed
  ultimately show ?thesis
    by (intro exI [of _ "empty_config_map\<lparr>Data := Some ?m\<rparr>"] exI [of _ "empty_config_map\<lparr>Data := Some ?m'\<rparr>"]) simp
qed

theorem token_not_unique_witness:
  "\<exists>cm cm'. Data cm \<noteq> Data cm' \<and> convertConfigMapToToken ref_lib cm = convertConfigMapToToken ref_lib cm'"
  by (rule token_not_unique [OF range_ok_ref_lib])

section \<open>Properties of the containers\<close>

text \<open>A container has the variable, and wherever it has it, with this value.\<close>

definition carries :: "string \<Rightarrow> string \<Rightarrow> container \<Rightarrow> bool" where
  "carries envar version c \<longleftrightarrow>
     list_ex (\<lambda>e. EnvName e = envar) (Env c) \<and>
     list_all (\<lambda>e. EnvName e = envar \<longrightarrow> EnvValue e = version) (Env c)"

text \<open>The variables that an update of \<open>envars\<close> has no business with.\<close>

definition other_env :: "string list \<Rightarrow> container \<Rightarrow> env_var list" where
  "other_env envars c = filter (\<lambda>e. EnvName e \<notin> set envars) (Env c)"

lemma updateContainer_carries:
  "carries ev v (fst (updateContainer ev' v c)) \<longleftrightarrow> ev = ev' \<or> carries ev v c"
proof (cases "\<exists>e \<in> set (Env c). EnvName e = ev'")
  case True
  have ex: "list_ex (\<lambda>e. EnvName e = ev) (map (\<lambda>e. if EnvName e = ev' then e\<lparr>EnvValue := v\<rparr> else e) es) \<longleftrightarrow>
      list_ex (\<lambda>e. EnvName e = ev) es" for es :: "env_var list"
    by (induction es) auto
  have all: "list_all (\<lambda>e. EnvName e = ev \<longrightarrow> EnvValue e = v)
        (map (\<lambda>e. if EnvName e = ev' then e\<lparr>EnvValue := v\<rparr> else e) es) \<longleftrightarrow>
      ev = ev' \<or> list_all (\<lambda>e. EnvName e = ev \<longrightarrow> EnvValue e = v) es" for es :: "env_var list"
    by (induction es) auto
  have "list_ex (\<lambda>e. EnvName e = ev') (Env c)" using True by (simp add: list_ex_iff)
  with True show ?thesis by (auto simp: carries_def updateContainer_def ex all)
next
  case False
  then have "list_all (\<lambda>e. EnvName e = ev' \<longrightarrow> EnvValue e = v) (Env c)" by (auto simp: list_all_iff)
  with False show ?thesis by (auto simp: carries_def updateContainer_def)
qed

lemma updateContainer_changed: "snd (updateContainer ev v c) \<longleftrightarrow> \<not> carries ev v c"
  by (auto simp: carries_def updateContainer_def list_ex_iff list_all_iff)

lemma updateContainer_settled: "carries ev v c \<Longrightarrow> fst (updateContainer ev v c) = c"
proof -
  assume c: "carries ev v c"
  then have "map (\<lambda>e. if EnvName e = ev then e\<lparr>EnvValue := v\<rparr> else e) (Env c) = Env c"
    by (intro map_idI) (auto simp: carries_def list_all_iff)
  with c show ?thesis by (auto simp: updateContainer_def carries_def list_ex_iff)
qed

lemma updateContainer_other:
  assumes "ev \<in> set evs"
  shows "other_env evs (fst (updateContainer ev v c)) = other_env evs c"
proof -
  have "filter (\<lambda>e. EnvName e \<notin> set evs) (map (\<lambda>e. if EnvName e = ev then e\<lparr>EnvValue := v\<rparr> else e) es) =
      filter (\<lambda>e. EnvName e \<notin> set evs) es" for es :: "env_var list"
    using assms by (induction es) auto
  with assms show ?thesis by (simp add: other_env_def updateContainer_def)
qed

lemma updateContainer_name [simp]: "ContainerName (fst (updateContainer ev v c)) = ContainerName c"
  by (simp add: updateContainer_def)

text \<open>The loop acts on each container alone.\<close>

definition updateAll :: "string list \<Rightarrow> string \<Rightarrow> container \<Rightarrow> container" where
  "updateAll names v c = foldl (\<lambda>c n. fst (updateContainer (configmapEnvar n) v c)) c names"

lemma updateAll_carries:
  "carries ev v (updateAll names v c) \<longleftrightarrow> ev \<in> configmapEnvar ` set names \<or> carries ev v c"
  unfolding updateAll_def by (induction names arbitrary: c) (auto simp: updateContainer_carries)

lemma updateAll_other:
  "set names \<subseteq> set ns \<Longrightarrow> other_env (map configmapEnvar ns) (updateAll names v c) = other_env (map configmapEnvar ns) c"
  unfolding updateAll_def by (induction names arbitrary: c) (auto simp: updateContainer_other)

lemma updateAll_settled:
  "\<forall>n \<in> set names. carries (configmapEnvar n) v c \<Longrightarrow> updateAll names v c = c"
  unfolding updateAll_def by (induction names) (simp_all add: updateContainer_settled)

lemma updateContainers_loop_eq:
  "updateContainers_loop names v cs b =
     (map (updateAll names v) cs, b \<or> (\<exists>c \<in> set cs. \<exists>n \<in> set names. \<not> carries (configmapEnvar n) v c))"
proof (induction names arbitrary: cs b)
  case Nil
  then show ?case by (simp add: updateAll_def)
next
  case (Cons n names)
  have "updateAll (n # names) v c = updateAll names v (fst (updateContainer (configmapEnvar n) v c))" for c
    by (simp add: updateAll_def)
  with Cons show ?case by (auto simp: Let_def updateContainer_changed updateContainer_carries) metis
qed

lemma updateContainers_eq:
  "updateContainers cs av v =
     (map (updateAll (Split av CHR '','') v) cs,
      \<exists>c \<in> set cs. \<exists>n \<in> set (Split av CHR '',''). \<not> carries (configmapEnvar n) v c)"
  by (simp add: updateContainers_def updateContainers_loop_eq)

text \<open>
  C28: \<^verbatim>\<open>updateContainers\<close> leaves every container with the variable of every ConfigMap named in the
  annotation set to the given version, whichever ConfigMap that version belongs to; it keeps the
  containers and all other variables, in order; it reports a change exactly when some container
  lacked that; and doing it again changes nothing and reports nothing.
\<close>

theorem updateContainers_effect:
  "let names = Split annotationValue CHR '','';
       envars = map configmapEnvar names;
       settled = list_all (\<lambda>c. list_all (\<lambda>ev. carries ev version c) envars)
   in case updateContainers containers annotationValue version of
        (containers', answer) \<Rightarrow>
          settled containers' \<and>
          map (other_env envars) containers' = map (other_env envars) containers \<and>
          answer = (\<not> settled containers) \<and>
          updateContainers containers' annotationValue version = (containers', False)"
proof -
  have "updateAll names v (updateAll names v c) = updateAll names v c" for names v c
    by (rule updateAll_settled) (simp add: updateAll_carries)
  then show ?thesis
    by (simp add: updateContainers_eq Let_def updateAll_carries updateAll_other list_all_iff comp_def)
qed

section \<open>The rolling upgrade on a server\<close>

lemma upgraded_meta [simp]: "Name (upgraded v d) = Name d" "Namespace (upgraded v d) = Namespace d"
  by (simp_all add: upgraded_def)

text \<open>What became of the deployment \<open>d\<close> stored before, in the store after.\<close>

definition upgrade_of :: "string \<Rightarrow> string \<Rightarrow> deployment \<Rightarrow> deployment option \<Rightarrow> bool" where
  "upgrade_of name v d after =
     (if matches_config_map name d
      then (case after of None \<Rightarrow> False | Some e \<Rightarrow> accepts_deployment (upgraded v d) e)
      else after = Some d)"

context app_server
begin

lemma rollingUpgrade_loop_Ok:
  assumes "rollingUpgrade_loop K ns name v ds w = (Ok (), w')"
    and "distinct (map object_key ds)" "\<forall>d \<in> set ds. Namespace d = ns"
  shows "view w' = (view w)\<lparr>deps := deps (view w')\<rparr> \<and>
     (\<forall>k. k \<notin> object_key ` {d \<in> set ds. matches_config_map name d} \<longrightarrow> deps (view w') k = deps (view w) k) \<and>
     (\<forall>d \<in> set ds. matches_config_map name d \<longrightarrow> upgrade_of name v d (deps (view w') (object_key d)))"
  using assms
proof (induction ds arbitrary: w)
  case (Cons d ds)
  show ?case
  proof (cases "matches_config_map name d")
    case False
    then have "{d' \<in> set (d # ds). matches_config_map name d'} = {d' \<in> set ds. matches_config_map name d'}" by auto
    with Cons False show ?thesis by simp
  next
    case True
    with Cons.prems obtain e w1 where u: "deployments_update K ns (upgraded v d) w = (Inr e, w1)"
      and rest: "rollingUpgrade_loop K ns name v ds w1 = (Ok (), w')"
      by (auto split: prod.splits sum.splits)
    from update_deployment [OF u] Cons.prems(3) have e: "accepts_deployment (upgraded v d) e"
      and v1: "view w1 = (view w)\<lparr>deps := (deps (view w))(object_key d \<mapsto> e)\<rparr>"
      by (simp_all add: object_key_def)
    have IH: "view w' = (view w1)\<lparr>deps := deps (view w')\<rparr>"
      "\<forall>k. k \<notin> object_key ` {d \<in> set ds. matches_config_map name d} \<longrightarrow> deps (view w') k = deps (view w1) k"
      "\<forall>d \<in> set ds. matches_config_map name d \<longrightarrow> upgrade_of name v d (deps (view w') (object_key d))"
      using Cons.IH [OF rest] Cons.prems(2,3) by simp_all
    have "object_key d \<notin> object_key ` {d \<in> set ds. matches_config_map name d}" using Cons.prems(2) by auto
    with IH(2) have "deps (view w') (object_key d) = deps (view w1) (object_key d)" by blast
    with v1 have stored: "deps (view w') (object_key d) = Some e" by simp
    have others: "deps (view w') k = deps (view w) k"
      if "k \<notin> object_key ` {d' \<in> set (d # ds). matches_config_map name d'}" for k
    proof -
      from that True have "k \<notin> object_key ` {d \<in> set ds. matches_config_map name d}" "k \<noteq> object_key d" by auto
      with IH(2) [THEN spec, of k] v1 show ?thesis by simp
    qed
    from IH(1) v1 have "view w' = (view w)\<lparr>deps := deps (view w')\<rparr>" by simp
    with IH(3) others stored e True show ?thesis by (simp add: upgrade_of_def)
  qed
qed simp

lemma rollingUpgradeDeployments_Ok:
  assumes "rollingUpgradeDeployments K L cm w = (Ok (), w')" "Namespace cm \<noteq> ''''" "keyed (deps (view w))"
  shows "view w' = (view w)\<lparr>deps := deps (view w')\<rparr> \<and>
     (\<forall>ns n. case deps (view w) (ns, n) of
        None \<Rightarrow> deps (view w') (ns, n) = None
      | Some d \<Rightarrow> (if ns = Namespace cm
                  then upgrade_of (Name cm) (convertConfigMapToToken L cm) d (deps (view w') (ns, n))
                  else deps (view w') (ns, n) = Some d))"
proof -
  let ?v = "convertConfigMapToToken L cm"
  obtain ds where ds: "deployments_list K (Namespace cm) w = Inr ds"
    and loop: "rollingUpgrade_loop K (Namespace cm) (Name cm) ?v ds w = (Ok (), w')"
    using assms(1) by (auto simp: rollingUpgradeDeployments_def split: sum.splits)
  from list_deployments [OF ds assms(2,3)] have l: "distinct (map object_key ds)"
    "\<And>d. d \<in> set ds \<longleftrightarrow> Namespace d = Namespace cm \<and> deps (view w) (object_key d) = Some d"
    by (auto simp: lists_namespace_def)
  have r: "view w' = (view w)\<lparr>deps := deps (view w')\<rparr>"
    "\<And>k. k \<notin> object_key ` {d \<in> set ds. matches_config_map (Name cm) d} \<Longrightarrow> deps (view w') k = deps (view w) k"
    "\<And>d. d \<in> set ds \<Longrightarrow> matches_config_map (Name cm) d \<Longrightarrow> upgrade_of (Name cm) ?v d (deps (view w') (object_key d))"
    using rollingUpgrade_loop_Ok [OF loop l(1)] l(2) by blast+
  have keep: "deps (view w') k = deps (view w) k"
    if "\<And>d. deps (view w) k = Some d \<Longrightarrow> fst k \<noteq> Namespace cm \<or> \<not> matches_config_map (Name cm) d" for k
    using that l(2) by (intro r(2)) (auto simp: object_key_def)
  have "case deps (view w) (ns, n) of
      None \<Rightarrow> deps (view w') (ns, n) = None
    | Some d \<Rightarrow> (if ns = Namespace cm then upgrade_of (Name cm) ?v d (deps (view w') (ns, n))
                else deps (view w') (ns, n) = Some d)" for ns n
  proof (cases "deps (view w) (ns, n)")
    case (Some d)
    then have key: "object_key d = (ns, n)" using assms(3) by (auto simp: keyed_def object_key_def)
    show ?thesis
    proof (cases "ns = Namespace cm \<and> matches_config_map (Name cm) d")
      case True
      with Some key l(2) [of d] r(3) [of d] show ?thesis by (auto simp: object_key_def)
    qed (use Some keep [of "(ns, n)"] in \<open>auto simp: upgrade_of_def\<close>)
  qed (use keep [of "(ns, n)"] in simp)
  with r(1) show ?thesis by blast
qed

end

text \<open>
  C19: a successful \<^verbatim>\<open>rollingUpgradeDeployments\<close> has stored every deployment of the ConfigMap's
  namespace that names it, with the token of its data in all containers, and has changed no other
  deployment and no other object.
\<close>

theorem rollingUpgradeDeployments_effect:
  assumes "app_server K L view OC"
    and "rollingUpgradeDeployments K L cm w = (Ok (), w')"
    and "Namespace cm \<noteq> ''''" "keyed (deps (view w))"
  shows "view w' = (view w)\<lparr>deps := deps (view w')\<rparr> \<and>
     (\<forall>ns n. case deps (view w) (ns, n) of
        None \<Rightarrow> deps (view w') (ns, n) = None
      | Some d \<Rightarrow> (if ns = Namespace cm
                  then upgrade_of (Name cm) (convertConfigMapToToken L cm) d (deps (view w') (ns, n))
                  else deps (view w') (ns, n) = Some d))"
  using assms(2-) by (rule app_server.rollingUpgradeDeployments_Ok [OF assms(1)])

definition example_deployment :: deployment where
  "example_deployment = \<lparr>Name = ''app'', Namespace = ''dev'', UID = '''', ResourceVersion = '''', Labels = None,
     Annotations = Some (fmupd updateOnChangeAnnotation ''web'' fmempty), OwnerReferences = [],
     Containers = [\<lparr>ContainerName = ''c'', Env = []\<rparr>]\<rparr>"

definition deployment_state :: ref_state where
  "deployment_state = \<lparr>ref_services = [], ref_ingresses = [], ref_configmaps = [],
     ref_deployments = [((''dev'', ''app''), example_deployment)], ref_routes = [], ref_oauthclients = [],
     ref_nodes = [], ref_paths = []\<rparr>"

theorem rollingUpgradeDeployments_effect_witness:
  "\<exists>w'. rollingUpgradeDeployments ref_client ref_lib empty_config_map deployment_state = (Ok (), w') \<and>
     upgrade_of ''web'' (convertConfigMapToToken ref_lib empty_config_map) example_deployment
       (deps (ref_view w') (''dev'', ''app'')) \<and> matches_config_map ''web'' example_deployment"
proof -
  have cm: "Name empty_config_map = ''web''" "Namespace empty_config_map = ''dev''"
    by (simp_all add: empty_config_map_def)
  have m: "matches_config_map ''web'' example_deployment"
    by (simp add: matches_config_map_def example_deployment_def)
  have names: "Name example_deployment = ''app''" by (simp add: example_deployment_def)
  have "deployments_list ref_client ''dev'' deployment_state = Inr [example_deployment]"
    by (simp add: ref_client_def ref_list_def deployment_state_def)
  then obtain w' where w': "rollingUpgradeDeployments ref_client ref_lib empty_config_map deployment_state = (Ok (), w')"
    using m by (simp add: rollingUpgradeDeployments_def cm) (simp add: ref_client_def deployment_state_def names)
  have "keyed (deps (ref_view deployment_state))"
    by (auto simp: keyed_def ref_view_def deployment_state_def example_deployment_def split: if_splits)
  note effect = rollingUpgradeDeployments_effect [OF ref.app_server_axioms w' _ this]
  have "deps (ref_view deployment_state) (''dev'', ''app'') = Some example_deployment"
    by (simp add: ref_view_def deployment_state_def)
  then have "upgrade_of ''web'' (convertConfigMapToToken ref_lib empty_config_map) example_deployment
      (deps (ref_view w') (''dev'', ''app''))"
    using effect [THEN conjunct2, THEN spec, of "''dev''", THEN spec, of "''app''"] by (simp add: cm)
  with w' m show ?thesis by blast
qed

end
