(* ===== verification/Config.thy ===== *)
theory Config
  imports KubeApi
begin

text \<open>
  \<^verbatim>\<open>controller/config.go\<close>: the configuration and how it is loaded. YAML is library code: its
  decoding and encoding of the types used are parameters, collected in a record.
\<close>

text \<open>The unexported field \<^verbatim>\<open>original\<close> is not touched by the decoder.\<close>

record config =
  Domain :: string
  InternalDomain :: string
  Exposer :: string
  PathMode :: string
  ApiServer :: string
  NodeIP :: string
  RouteHostName :: string
  RouteUsePath :: bool
  ConsoleURL :: string
  AuthorizePath :: string
  ApiServerProtocol :: string
  WatchNamespaces :: string
  WatchCurrentNamespace :: bool
  HTTPOnly :: bool
  TLSAcme :: bool
  TLSSecretName :: string
  TLSUseWildcard :: bool
  UrlTemplate :: string
  Services :: "string list"
  IngressClass :: string
  original :: string

definition DefaultConfig :: config where
  "DefaultConfig =
     \<lparr>Domain = '''', InternalDomain = '''', Exposer = '''', PathMode = '''', ApiServer = '''', NodeIP = '''',
      RouteHostName = '''', RouteUsePath = False, ConsoleURL = '''', AuthorizePath = '''', ApiServerProtocol = '''',
      WatchNamespaces = '''', WatchCurrentNamespace = False, HTTPOnly = False, TLSAcme = False, TLSSecretName = '''',
      TLSUseWildcard = False, UrlTemplate = '''', Services = [], IngressClass = '''', original = ''''\<rparr>"

record config_yaml =
  Key :: string
  Expression :: string
  Prefix :: string
  Suffix :: string

text \<open>
  \<open>decode_plain\<close> is the callback that \<^verbatim>\<open>UnmarshalYAML\<close> is given: it fills a configuration, and
  reports an error beside what it filled. \<open>document\<close> says what kind of document a text is: not
  YAML, none (the decoder is not called at all), null (a pointer target is set to nil), or a value.
\<close>

datatype yaml_document = SyntaxError goerror | NoDocument | NullDocument | ValueDocument

record yaml_lib =
  document :: "string \<Rightarrow> yaml_document"
  decode_plain :: "string \<Rightarrow> config \<Rightarrow> config \<times> goerror option"
  decode_config_yamls :: "string \<Rightarrow> goerror + config_yaml list"
  marshal_config :: "config \<Rightarrow> goerror + string"
  marshal_map :: "(string, string) fmap \<Rightarrow> goerror + string"

definition UnmarshalYAML :: "yaml_lib \<Rightarrow> string \<Rightarrow> config \<Rightarrow> config \<times> goerror option" where
  "UnmarshalYAML Y s c = decode_plain Y s DefaultConfig"

text \<open>
  \<^verbatim>\<open>yaml.Unmarshal\<close> of a text into a \<^verbatim>\<open>**Config\<close> and into a \<^verbatim>\<open>*Config\<close>; \<open>None\<close> is the nil
  pointer.
\<close>

definition unmarshal_pointer :: "yaml_lib \<Rightarrow> string \<Rightarrow> config \<Rightarrow> config option \<times> goerror option" where
  "unmarshal_pointer Y s c =
     (case document Y s of
        SyntaxError e \<Rightarrow> (Some c, Some e)
      | NoDocument \<Rightarrow> (Some c, None)
      | NullDocument \<Rightarrow> (None, None)
      | ValueDocument \<Rightarrow> (case UnmarshalYAML Y s c of (c', e) \<Rightarrow> (Some c', e)))"

definition unmarshal_struct :: "yaml_lib \<Rightarrow> string \<Rightarrow> config \<Rightarrow> config \<times> goerror option" where
  "unmarshal_struct Y s c =
     (case document Y s of
        SyntaxError e \<Rightarrow> (c, Some e)
      | NoDocument \<Rightarrow> (c, None)
      | NullDocument \<Rightarrow> (DefaultConfig, None)
      | ValueDocument \<Rightarrow> UnmarshalYAML Y s c)"

definition Load :: "yaml_lib \<Rightarrow> string \<Rightarrow> config outcome" where
  "Load Y s =
     (case unmarshal_pointer Y s DefaultConfig of
        (_, Some e) \<Rightarrow> Err (WithMessage ''failed to unmarshal config'' e)
      | (None, None) \<Rightarrow> Panic ''nil pointer dereference''
      | (Some cfg, None) \<Rightarrow> Ok (cfg\<lparr>original := s\<rparr>))"

text \<open>\<^verbatim>\<open>ioutil.ReadFile\<close> of the configuration file: its content, or an error.\<close>

datatype file_error = NotExist | ReadFailed string

text \<open>The result is the configuration and whether the file exists, or an error with that flag.\<close>

definition LoadFile :: "yaml_lib \<Rightarrow> file_error + string \<Rightarrow> (config \<times> bool, goerror \<times> bool) sum outcome" where
  "LoadFile Y file =
     (case file of
        Inl (ReadFailed e) \<Rightarrow> Ok (Inr (WithMessage ''failed to read config file'' (ErrMsg e), False))
      | _ \<Rightarrow>
          (case Load Y (case file of Inl _ \<Rightarrow> '''' | Inr content \<Rightarrow> content) of
             Err e \<Rightarrow> Ok (Inr (WithMessage ''failed to read config file'' e, False))
           | Panic p \<Rightarrow> Panic p
           | Ok c \<Rightarrow> Ok (Inl (c, case file of Inl _ \<Rightarrow> False | Inr _ \<Rightarrow> True))))"

text \<open>
  \<^verbatim>\<open>MapToConfig\<close> returns what was decoded beside the error; \<open>None\<close> is the nil pointer.
\<close>

definition MapToConfig :: "yaml_lib \<Rightarrow> (string, string) fmap \<Rightarrow> config option \<times> goerror option" where
  "MapToConfig Y data =
     (case marshal_map Y data of
        Inl e \<Rightarrow> (None, Some e)
      | Inr b \<Rightarrow> (case unmarshal_struct Y b DefaultConfig of (answer, err) \<Rightarrow> (Some answer, err)))"

text \<open>The text of an error inside the message is left out.\<close>

definition Config_String :: "yaml_lib \<Rightarrow> config \<Rightarrow> string" where
  "Config_String Y c =
     (if original c \<noteq> '''' then original c
      else case marshal_config Y c of Inl e \<Rightarrow> ''<error creating config string: >'' | Inr b \<Rightarrow> b)"

text \<open>A decoder that reads nothing but knows the empty and the null document.\<close>

definition ref_yaml_lib :: yaml_lib where
  "ref_yaml_lib =
     \<lparr>document = (\<lambda>s. if s = '''' then NoDocument else if s = ''null'' then NullDocument else ValueDocument),
      decode_plain = (\<lambda>s c. (c\<lparr>Exposer := s\<rparr>, None)),
      decode_config_yamls = (\<lambda>s. Inr [\<lparr>Key = ''k'', Expression = ''url'', Prefix = s, Suffix = ''''\<rparr>]),
      marshal_config = (\<lambda>c. Inr (Exposer c)),
      marshal_map = (\<lambda>m. Inr (fget m ''exposer''))\<rparr>"

text \<open>
  C30: every outcome of \<^verbatim>\<open>Load\<close>, and that it is undone by \<^verbatim>\<open>String\<close>. It panics exactly on a null
  document, fails exactly on a text that does not parse or whose values do not fit the fields, and
  otherwise gives the decoded fields (the defaults for an empty document). A configuration loaded
  from a non-empty text prints as that text, so that loading what was printed gives the same
  configuration again; and it does so whatever its fields are set to afterwards.
\<close>

theorem Load_String_roundtrip:
  "((\<exists>p. Load Y s = Panic p) \<longleftrightarrow> document Y s = NullDocument) \<and>
   ((\<exists>e. Load Y s = Err e) \<longleftrightarrow>
      (\<exists>e. document Y s = SyntaxError e) \<or>
      document Y s = ValueDocument \<and> snd (decode_plain Y s DefaultConfig) \<noteq> None) \<and>
   (case Load Y s of
      Ok c \<Rightarrow>
        c = (if document Y s = NoDocument then DefaultConfig else fst (decode_plain Y s DefaultConfig))\<lparr>original := s\<rparr> \<and>
        (s = '''' \<or> (Load Y (Config_String Y c) = Ok c \<and>
          (\<forall>c'. original c' \<noteq> original c \<or> Config_String Y c' = s)))
    | _ \<Rightarrow> True)"
proof (cases "document Y s")
  case ValueDocument
  obtain c e where "decode_plain Y s DefaultConfig = (c, e)" by fastforce
  with ValueDocument show ?thesis
    by (cases e) (auto simp: Load_def unmarshal_pointer_def UnmarshalYAML_def Config_String_def)
qed (auto simp: Load_def unmarshal_pointer_def Config_String_def)

text \<open>The text of the example decoder, loaded and printed.\<close>

theorem Load_String_roundtrip_witness:
  "\<exists>c. Load ref_yaml_lib ''ingress'' = Ok c \<and> Config_String ref_yaml_lib (c\<lparr>Domain := ''io''\<rparr>) = ''ingress''"
proof -
  obtain c where c: "Load ref_yaml_lib ''ingress'' = Ok c"
    by (simp add: Load_def unmarshal_pointer_def UnmarshalYAML_def ref_yaml_lib_def)
  have "\<forall>c'. original c' \<noteq> original c \<or> Config_String ref_yaml_lib c' = ''ingress''"
    using Load_String_roundtrip [of ref_yaml_lib "''ingress''", THEN conjunct2, THEN conjunct2, unfolded c] by simp
  from spec [OF this, of "c\<lparr>Domain := ''io''\<rparr>"] c show ?thesis by simp
qed

end
