(* ===== verification/GoUrl.thy ===== *)
theory GoUrl
  imports GoStrings
begin

text \<open>
  \<^verbatim>\<open>net/url\<close> of Go 1.11, the version the program is built with: \<^verbatim>\<open>Parse\<close> and \<^verbatim>\<open>String\<close>, as the
  controller uses them on the exposed URL. Errors are not inspected beyond being errors, so parsing
  answers an option.
\<close>

section \<open>Escaping\<close>

datatype encoding = encodePath | encodeHost | encodeZone | encodeUserPassword | encodeFragment

abbreviation code :: "char \<Rightarrow> nat" where
  "code c \<equiv> of_char c"

definition alphanum :: "char \<Rightarrow> bool" where
  "alphanum c \<longleftrightarrow> code c \<in> {65..90} \<or> code c \<in> {97..122} \<or> code c \<in> {48..57}"

text \<open>The bytes of the cases in \<^verbatim>\<open>shouldEscape\<close>; the quote characters are given by number.\<close>

definition host_bytes :: string where
  "host_bytes = ''!$&()*+,;=:[]<>'' @ [CHR 0x22, CHR 0x27]"

definition reserved_bytes :: string where
  "reserved_bytes = ''$&+,/:;=?@''"

definition shouldEscape :: "char \<Rightarrow> encoding \<Rightarrow> bool" where
  "shouldEscape c mode =
     (if alphanum c then False
      else if (mode = encodeHost \<or> mode = encodeZone) \<and> c \<in> set host_bytes then False
      else if c \<in> set ''-_.~'' then False
      else if c \<in> set reserved_bytes \<and> mode = encodePath then c = CHR ''?''
      else if c \<in> set reserved_bytes \<and> mode = encodeUserPassword then c \<in> set ''@/?:''
      else if c \<in> set reserved_bytes \<and> mode = encodeFragment then False
      else if mode = encodeFragment \<and> c \<in> set ''!()*'' then False
      else True)"

definition unhex :: "char \<Rightarrow> nat option" where
  "unhex c =
     (if code c \<in> {48..57} then Some (code c - 48)
      else if code c \<in> {97..102} then Some (code c - 97 + 10)
      else if code c \<in> {65..70} then Some (code c - 65 + 10)
      else None)"

definition hexdigit :: "nat \<Rightarrow> char" where
  "hexdigit n = (if n < 10 then char_of (48 + n) else char_of (55 + n))"

fun unescape :: "string \<Rightarrow> encoding \<Rightarrow> string option" where
  "unescape [] mode = Some []"
| "unescape (c # s) mode =
     (if c = CHR ''%'' then
        (case s of
           a # b # r \<Rightarrow>
             (case (unhex a, unhex b) of
                (Some x, Some y) \<Rightarrow>
                  if mode = encodeHost \<and> x < 8 \<and> (a, b) \<noteq> (CHR ''2'', CHR ''5'') then None
                  else if mode = encodeZone \<and> (a, b) \<noteq> (CHR ''2'', CHR ''5'') \<and> 16 * x + y \<noteq> 32 \<and>
                      shouldEscape (char_of (16 * x + y)) encodeHost then None
                  else map_option ((#) (char_of (16 * x + y))) (unescape r mode)
              | _ \<Rightarrow> None)
         | _ \<Rightarrow> None)
      else if (mode = encodeHost \<or> mode = encodeZone) \<and> code c < 128 \<and> shouldEscape c mode then None
      else map_option ((#) c) (unescape s mode))"

definition escape_byte :: "encoding \<Rightarrow> char \<Rightarrow> string" where
  "escape_byte mode c =
     (if shouldEscape c mode then [CHR ''%'', hexdigit (code c div 16), hexdigit (code c mod 16)] else [c])"

definition escape :: "string \<Rightarrow> encoding \<Rightarrow> string" where
  "escape s mode = concat (map (escape_byte mode) s)"


section \<open>Parsing\<close>

record url =
  Scheme :: string
  Opaque :: string
  User :: "(string \<times> string option) option"
  Host :: string
  UrlPath :: string
  RawPath :: string
  ForceQuery :: bool
  RawQuery :: string
  Fragment :: string

definition empty_url :: url where
  "empty_url = \<lparr>Scheme = '''', Opaque = '''', User = None, Host = '''', UrlPath = '''', RawPath = '''',
     ForceQuery = False, RawQuery = '''', Fragment = ''''\<rparr>"

text \<open>\<^verbatim>\<open>split(s, c, cutc)\<close>: at the first \<open>c\<close>; without one, the rest is empty.\<close>

definition url_split :: "string \<Rightarrow> char \<Rightarrow> bool \<Rightarrow> string \<times> string" where
  "url_split s c cutc =
     (case dropWhile (\<lambda>x. x \<noteq> c) s of
        [] \<Rightarrow> (s, '''')
      | x # r \<Rightarrow> (takeWhile (\<lambda>x. x \<noteq> c) s, if cutc then r else x # r))"

definition scheme_start :: "char \<Rightarrow> bool" where
  "scheme_start c \<longleftrightarrow> code c \<in> {65..90} \<or> code c \<in> {97..122}"

definition scheme_char :: "char \<Rightarrow> bool" where
  "scheme_char c \<longleftrightarrow> alphanum c \<or> c = CHR ''+'' \<or> c = CHR ''-'' \<or> c = CHR ''.''"

definition getscheme :: "string \<Rightarrow> (string \<times> string) option" where
  "getscheme rawurl =
     (case rawurl of
        [] \<Rightarrow> Some ('''', '''')
      | c # _ \<Rightarrow>
          if c = CHR '':'' then None
          else if \<not> scheme_start c then Some ('''', rawurl)
          else (case dropWhile scheme_char rawurl of
                  x # r \<Rightarrow> if x = CHR '':'' then Some (takeWhile scheme_char rawurl, r) else Some ('''', rawurl)
                | [] \<Rightarrow> Some ('''', rawurl)))"

definition validOptionalPort :: "string \<Rightarrow> bool" where
  "validOptionalPort port =
     (case port of [] \<Rightarrow> True | c # r \<Rightarrow> c = CHR '':'' \<and> list_all (\<lambda>b. code b \<in> {48..57}) r)"

text \<open>The index of the first \<^verbatim>\<open>%25\<close>, the start of a zone identifier.\<close>

fun zone_index :: "string \<Rightarrow> nat option" where
  "zone_index [] = None"
| "zone_index (c # s) = (if HasPrefix (c # s) ''%25'' then Some 0 else map_option Suc (zone_index s))"

definition parseHost :: "string \<Rightarrow> string option" where
  "parseHost host =
     (if HasPrefix host ''['' then
        (case LastIndex host CHR '']'' of
           None \<Rightarrow> None
         | Some i \<Rightarrow>
             if \<not> validOptionalPort (drop (Suc i) host) then None
             else (case zone_index (take i host) of
                     None \<Rightarrow> unescape host encodeHost
                   | Some z \<Rightarrow>
                       (case (unescape (take z host) encodeHost, unescape (take (i - z) (drop z host)) encodeZone,
                              unescape (drop i host) encodeHost) of
                          (Some host1, Some host2, Some host3) \<Rightarrow> Some (host1 @ host2 @ host3)
                        | _ \<Rightarrow> None)))
      else unescape host encodeHost)"

definition userinfo_bytes :: string where
  "userinfo_bytes = ''-._:~!$&()*+,;=%@'' @ [CHR 0x27]"

definition parseUser :: "string \<Rightarrow> (string \<times> string option) option" where
  "parseUser userinfo =
     (if \<not> list_all (\<lambda>c. alphanum c \<or> c \<in> set userinfo_bytes) userinfo then None
      else if CHR '':'' \<notin> set userinfo then
        map_option (\<lambda>u. (u, None)) (unescape userinfo encodeUserPassword)
      else (case url_split userinfo CHR '':'' True of
              (username, password) \<Rightarrow>
                (case (unescape username encodeUserPassword, unescape password encodeUserPassword) of
                   (Some u, Some p) \<Rightarrow> Some (u, Some p)
                 | _ \<Rightarrow> None)))"

definition parseAuthority :: "string \<Rightarrow> ((string \<times> string option) option \<times> string) option" where
  "parseAuthority authority =
     (case LastIndex authority CHR ''@'' of
        None \<Rightarrow> map_option (\<lambda>h. (None, h)) (parseHost authority)
      | Some i \<Rightarrow>
          (case (parseHost (drop (Suc i) authority), parseUser (take i authority)) of
             (Some h, Some u) \<Rightarrow> Some (Some u, h)
           | _ \<Rightarrow> None))"

definition setPath :: "url \<Rightarrow> string \<Rightarrow> url option" where
  "setPath u p =
     (case unescape p encodePath of
        None \<Rightarrow> None
      | Some path \<Rightarrow> Some (u\<lparr>UrlPath := path, RawPath := (if p = escape path encodePath then '''' else p)\<rparr>))"

text \<open>The part of \<^verbatim>\<open>parse\<close> after the query is cut off.\<close>

definition parse_hierarchy :: "url \<Rightarrow> string \<Rightarrow> url option" where
  "parse_hierarchy u rest =
     (if \<not> HasPrefix rest ''/'' \<and> Scheme u \<noteq> '''' then Some (u\<lparr>Opaque := rest\<rparr>)
      else if \<not> HasPrefix rest ''/'' \<and> CHR '':'' \<in> set (fst (url_split rest CHR ''/'' True)) then None
      else if (Scheme u \<noteq> '''' \<or> \<not> HasPrefix rest ''///'') \<and> HasPrefix rest ''//'' then
        (case url_split (drop 2 rest) CHR ''/'' False of
           (authority, path) \<Rightarrow>
             (case parseAuthority authority of
                None \<Rightarrow> None
              | Some (user, host) \<Rightarrow> setPath (u\<lparr>User := user, Host := host\<rparr>) path))
      else setPath u rest)"

definition parse :: "string \<Rightarrow> url option" where
  "parse rawurl =
     (if rawurl = ''*'' then Some (empty_url\<lparr>UrlPath := ''*''\<rparr>)
      else (case getscheme rawurl of
              None \<Rightarrow> None
            | Some (scheme, rest) \<Rightarrow>
                (let u = empty_url\<lparr>Scheme := ToLower scheme\<rparr>
                 in if HasSuffix rest ''?'' \<and> CHR ''?'' \<notin> set (butlast rest)
                    then parse_hierarchy (u\<lparr>ForceQuery := True\<rparr>) (butlast rest)
                    else (case url_split rest CHR ''?'' True of
                            (rest', query) \<Rightarrow> parse_hierarchy (u\<lparr>RawQuery := query\<rparr>) rest'))))"

definition Parse :: "string \<Rightarrow> url option" where
  "Parse rawurl =
     (case url_split rawurl CHR 0x23 True of
        (u, frag) \<Rightarrow>
          (case parse u of
             None \<Rightarrow> None
           | Some url \<Rightarrow>
               if frag = '''' then Some url
               else map_option (\<lambda>f. url\<lparr>Fragment := f\<rparr>) (unescape frag encodeFragment)))"


section \<open>Printing\<close>

text \<open>\<^verbatim>\<open>validEncodedPath\<close>\<close>

definition validEncodedPath :: "string \<Rightarrow> bool" where
  "validEncodedPath s =
     list_all (\<lambda>c. c \<in> set (''!$&()*+,;=:@[]%'' @ [CHR 0x27]) \<or> \<not> shouldEscape c encodePath) s"

definition EscapedPath :: "url \<Rightarrow> string" where
  "EscapedPath u =
     (if RawPath u \<noteq> '''' \<and> validEncodedPath (RawPath u) \<and> unescape (RawPath u) encodePath = Some (UrlPath u)
      then RawPath u
      else if UrlPath u = ''*'' then ''*''
      else escape (UrlPath u) encodePath)"

definition Userinfo_String :: "string \<times> string option \<Rightarrow> string" where
  "Userinfo_String ui =
     (case ui of
        (u, None) \<Rightarrow> escape u encodeUserPassword
      | (u, Some p) \<Rightarrow> escape u encodeUserPassword @ '':'' @ escape p encodeUserPassword)"

definition URL_String :: "url \<Rightarrow> string" where
  "URL_String u =
     (let scheme = (if Scheme u \<noteq> '''' then Scheme u @ '':'' else '''');
          authority =
            (if Scheme u \<noteq> '''' \<or> Host u \<noteq> '''' \<or> User u \<noteq> None then
               (if Host u \<noteq> '''' \<or> UrlPath u \<noteq> '''' \<or> User u \<noteq> None then ''//'' else '''') @
               (case User u of None \<Rightarrow> '''' | Some ui \<Rightarrow> Userinfo_String ui @ ''@'') @
               escape (Host u) encodeHost
             else '''');
          path = EscapedPath u;
          slash = (if path \<noteq> '''' \<and> hd path \<noteq> CHR ''/'' \<and> Host u \<noteq> '''' then ''/'' else '''');
          dot = (if scheme @ authority @ slash = '''' \<and> CHR '':'' \<in> set (fst (url_split path CHR ''/'' True))
                 then ''./'' else '''');
          body = (if Opaque u \<noteq> '''' then Opaque u else authority @ slash @ dot @ path)
      in scheme @ body @
         (if ForceQuery u \<or> RawQuery u \<noteq> '''' then ''?'' @ RawQuery u else '''') @
         (if Fragment u \<noteq> '''' then ''#'' @ escape (Fragment u) encodeFragment else ''''))"

section \<open>Properties\<close>

lemma url_split_fresh: "c \<notin> set s \<Longrightarrow> url_split s c b = (s, '''')"
proof -
  assume "c \<notin> set s"
  then have d: "dropWhile (\<lambda>x. x \<noteq> c) s = []" by (auto simp: dropWhile_eq_Nil_conv)
  show ?thesis unfolding url_split_def d by simp
qed

lemma url_split_at: "c \<notin> set s \<Longrightarrow> url_split (s @ c # r) c b = (s, if b then r else c # r)"
proof -
  assume fresh: "c \<notin> set s"
  then have "\<forall>x \<in> set s. x \<noteq> c" by auto
  then have "dropWhile (\<lambda>x. x \<noteq> c) (s @ c # r) = c # r" "takeWhile (\<lambda>x. x \<noteq> c) (s @ c # r) = s"
    by (simp_all add: dropWhile_append3 takeWhile_append)
  then show ?thesis by (simp add: url_split_def)
qed

lemma unescape_plain:
  "CHR ''%'' \<notin> set s \<Longrightarrow> (mode = encodeHost \<or> mode = encodeZone \<Longrightarrow> \<forall>c \<in> set s. \<not> shouldEscape c mode) \<Longrightarrow>
   unescape s mode = Some s"
  by (induction s) auto

lemma escape_plain: "\<forall>c \<in> set s. \<not> shouldEscape c mode \<Longrightarrow> escape s mode = s"
  by (induction s) (auto simp: escape_def escape_byte_def)

lemma code_char_of: "n < 256 \<Longrightarrow> code (char_of n) = n"
  by simp

lemma unhex_hexdigit: "n < 16 \<Longrightarrow> unhex (hexdigit n) = Some n"
  by (auto simp: unhex_def hexdigit_def code_char_of)

lemma code_less: "code c < 256"
  by (rule nat_of_char_less_256)

text \<open>
  Escaping and unescaping are inverse, also in the modes for paths, user names and fragments.
\<close>

lemma unescape_escape:
  assumes "mode \<noteq> encodeHost" "mode \<noteq> encodeZone"
  shows "unescape (escape s mode) mode = Some s"
proof (induction s)
  case (Cons c s)
  have hex: "unhex (hexdigit (code c div 16)) = Some (code c div 16)"
    "unhex (hexdigit (code c mod 16)) = Some (code c mod 16)"
    using code_less [of c] by (intro unhex_hexdigit; linarith)+
  have "16 * (code c div 16) + code c mod 16 = code c" by simp
  then have byte: "char_of (16 * (code c div 16) + code c mod 16) = c" by simp
  have pct: "shouldEscape CHR ''%'' mode"
    using assms by (cases mode) (simp_all add: shouldEscape_def alphanum_def reserved_bytes_def)
  show ?case
  proof (cases "shouldEscape c mode")
    case True
    with Cons assms hex byte show ?thesis by (simp add: escape_def escape_byte_def)
  next
    case False
    with pct have "c \<noteq> CHR ''%''" by auto
    with Cons False assms show ?thesis by (simp add: escape_def escape_byte_def)
  qed
qed (simp add: escape_def)

text \<open>The host of an exposed URL: letters, digits, dots, dashes and a port.\<close>

definition plain_char :: "char \<Rightarrow> bool" where
  "plain_char c \<longleftrightarrow> alphanum c \<or> c \<in> set ''-._~:''"

definition plain_host :: "string \<Rightarrow> bool" where
  "plain_host h \<longleftrightarrow> h \<noteq> '''' \<and> list_all plain_char h"

text \<open>Its path: empty, or a slash and characters that need no escaping.\<close>

definition plain_path :: "string \<Rightarrow> bool" where
  "plain_path p \<longleftrightarrow> (p = '''' \<or> HasPrefix p ''/'') \<and> list_all (\<lambda>c. plain_char c \<or> c = CHR ''/'') p"

lemma plain_char_facts:
  assumes "plain_char c"
  shows "c \<notin> set ''/?#%@[''" "\<not> shouldEscape c encodeHost" "\<not> shouldEscape c encodePath"
  using assms
  by (auto simp: plain_char_def alphanum_def shouldEscape_def host_bytes_def reserved_bytes_def)

lemma path_char_facts:
  assumes "plain_char c \<or> c = CHR ''/''"
  shows "c \<notin> set ''?#%@[''" "c \<noteq> CHR ''%''" "\<not> shouldEscape c encodePath"
proof -
  have "CHR ''/'' \<notin> set ''?#%@[''" "\<not> shouldEscape CHR ''/'' encodePath"
    by (simp_all add: shouldEscape_def reserved_bytes_def)
  with assms plain_char_facts [of c] show "c \<notin> set ''?#%@[''" "c \<noteq> CHR ''%''" "\<not> shouldEscape c encodePath"
    by auto
qed

lemma parseHost_plain: "plain_host h \<Longrightarrow> parseHost h = Some h"
proof -
  assume h: "plain_host h"
  then have "\<forall>c \<in> set h. plain_char c" by (simp add: plain_host_def list_all_iff)
  then have chars: "\<forall>c \<in> set h. c \<notin> set ''/?#%@['' \<and> \<not> shouldEscape c encodeHost"
    using plain_char_facts by blast
  then have "\<not> HasPrefix h ''[''" by (cases h) auto
  moreover have "unescape h encodeHost = Some h" using chars by (intro unescape_plain) auto
  ultimately show ?thesis by (simp add: parseHost_def)
qed

lemma parseAuthority_plain: "plain_host h \<Longrightarrow> parseAuthority h = Some (None, h)"
proof -
  assume h: "plain_host h"
  then have "CHR ''@'' \<notin> set h" using plain_char_facts(1) by (fastforce simp: plain_host_def list_all_iff)
  then have "LastIndex h CHR ''@'' = None" by (simp add: LastIndex_fresh)
  with h show ?thesis by (simp add: parseAuthority_def parseHost_plain)
qed

lemma setPath_plain:
  assumes "plain_path p"
  shows "setPath u p = Some (u\<lparr>UrlPath := p, RawPath := ''''\<rparr>)"
proof -
  have chars: "\<forall>c \<in> set p. c \<noteq> CHR ''%'' \<and> \<not> shouldEscape c encodePath"
    using path_char_facts assms by (auto simp: plain_path_def list_all_iff)
  then have "unescape p encodePath = Some p" by (intro unescape_plain) auto
  moreover have "escape p encodePath = p" using chars by (intro escape_plain) auto
  ultimately show ?thesis by (simp add: setPath_def)
qed

lemma Parse_exposed:
  assumes "scheme = ''http'' \<or> scheme = ''https''" "plain_host h" "plain_path p"
  shows "Parse (scheme @ ''://'' @ h @ p) =
     Some (empty_url\<lparr>Scheme := scheme, Host := h, UrlPath := p\<rparr>)"
proof -
  let ?rest = "''//'' @ h @ p"
  have "\<forall>c \<in> set (h @ p). plain_char c \<or> c = CHR ''/''"
    using assms(2,3) by (auto simp: plain_host_def plain_path_def list_all_iff)
  then have "\<forall>c \<in> set (h @ p). c \<notin> set ''?#%@[''" using path_char_facts(1) by blast
  then have "c \<notin> set (h @ p)" if "c \<in> set ''?#%@[''" for c using that by blast
  then have "CHR ''?'' \<notin> set (h @ p)" "CHR 0x23 \<notin> set (h @ p)" by simp_all
  moreover have "CHR 0x23 \<notin> set scheme" using assms(1) by (elim disjE) simp_all
  ultimately have fresh: "CHR ''?'' \<notin> set ?rest" "CHR 0x23 \<notin> set (scheme @ ''://'' @ h @ p)"
    by simp_all
  have noslash: "CHR ''/'' \<notin> set h"
  proof
    assume "CHR ''/'' \<in> set h"
    with assms(2) have "plain_char CHR ''/''" by (auto simp: plain_host_def list_all_iff)
    with plain_char_facts(1) [of "CHR ''/''"] show False by simp
  qed
  have frag: "url_split (scheme @ ''://'' @ h @ p) CHR 0x23 True = (scheme @ ''://'' @ h @ p, '''')"
    using fresh(2) by (rule url_split_fresh)
  have lower: "ToLower scheme = scheme" using assms(1) by (auto simp: lower_byte_def)
  have scheme: "getscheme (scheme @ ''://'' @ h @ p) = Some (scheme, ?rest)"
    using assms(1) by (auto simp: getscheme_def scheme_start_def scheme_char_def alphanum_def)
  have star: "scheme @ ''://'' @ h @ p \<noteq> ''*''" using assms(1) by auto
  have noforce: "\<not> HasSuffix ?rest ''?''"
    using fresh(1) last_in_set [of ?rest] unfolding HasSuffix_single by metis
  have query: "url_split ?rest CHR ''?'' True = (?rest, '''')" using fresh(1) by (rule url_split_fresh)
  have auth: "url_split (h @ p) CHR ''/'' False = (h, p)"
  proof (cases p)
    case Nil
    with noslash show ?thesis by (simp add: url_split_fresh)
  next
    case (Cons c r)
    with assms(3) have "c = CHR ''/''" by (simp add: plain_path_def)
    with Cons noslash show ?thesis by (simp add: url_split_at)
  qed
  have "parse_hierarchy (empty_url\<lparr>Scheme := scheme, RawQuery := ''''\<rparr>) ?rest =
      Some (empty_url\<lparr>Scheme := scheme, Host := h, UrlPath := p\<rparr>)"
    using assms auth by (auto simp: parse_hierarchy_def parseAuthority_plain setPath_plain empty_url_def)
  then have "parse (scheme @ ''://'' @ h @ p) = Some (empty_url\<lparr>Scheme := scheme, Host := h, UrlPath := p\<rparr>)"
    using star scheme noforce query by (simp add: parse_def lower)
  then show ?thesis unfolding Parse_def frag by simp
qed

text \<open>Printing the parsed URL after its path was cut to the root.\<close>

lemma URL_String_root:
  assumes "scheme \<noteq> ''''" "plain_host h"
  shows "URL_String (empty_url\<lparr>Scheme := scheme, Host := h, UrlPath := ''/''\<rparr>) = scheme @ ''://'' @ h @ ''/''"
proof -
  have "escape h encodeHost = h"
    using assms(2) plain_char_facts(2) by (intro escape_plain) (auto simp: plain_host_def list_all_iff)
  moreover have "escape ''/'' encodePath = ''/''"
    by (simp add: escape_def escape_byte_def shouldEscape_def reserved_bytes_def)
  ultimately show ?thesis
    using assms by (simp add: URL_String_def EscapedPath_def empty_url_def plain_host_def)
qed

end
