(* ===== verification/ConfigMaps.thy ===== *)
theory ConfigMaps
  imports Utils Deployments Config GoUrl
begin

text \<open>
  The ConfigMap part of \<^verbatim>\<open>controller/controller.go\<close>: after a service is exposed, its own ConfigMap
  and the ConfigMaps that ask for its URL are filled in, as their annotations say.
\<close>

section \<open>Annotation keys\<close>

text \<open>The constants of \<^verbatim>\<open>controller.go\<close>.\<close>

abbreviation ExposeConfigURLProtocol :: string where
  "ExposeConfigURLProtocol \<equiv> ''expose.config.fabric8.io/url-protocol''"

abbreviation ExposeConfigURLKeyAnnotation :: string where
  "ExposeConfigURLKeyAnnotation \<equiv> ''expose.config.fabric8.io/url-key''"

abbreviation ExposeConfigHostKeyAnnotation :: string where
  "ExposeConfigHostKeyAnnotation \<equiv> ''expose.config.fabric8.io/host-key''"

abbreviation ExposeConfigClusterPathKeyAnnotation :: string where
  "ExposeConfigClusterPathKeyAnnotation \<equiv> ''expose.config.fabric8.io/path-key''"

abbreviation ExposeConfigClusterIPKeyAnnotation :: string where
  "ExposeConfigClusterIPKeyAnnotation \<equiv> ''expose.config.fabric8.io/clusterip-key''"

abbreviation ExposeConfigClusterIPPortKeyAnnotation :: string where
  "ExposeConfigClusterIPPortKeyAnnotation \<equiv> ''expose.config.fabric8.io/clusterip-port-key''"

abbreviation ExposeConfigClusterIPPortIfEmptyKeyAnnotation :: string where
  "ExposeConfigClusterIPPortIfEmptyKeyAnnotation \<equiv> ''expose.config.fabric8.io/clusterip-port-if-empty-key''"

abbreviation ExposeConfigApiServerKeyAnnotation :: string where
  "ExposeConfigApiServerKeyAnnotation \<equiv> ''expose.config.fabric8.io/apiserver-key''"

abbreviation ExposeConfigApiServerURLKeyAnnotation :: string where
  "ExposeConfigApiServerURLKeyAnnotation \<equiv> ''expose.config.fabric8.io/apiserver-url-key''"

abbreviation ExposeConfigConsoleURLKeyAnnotation :: string where
  "ExposeConfigConsoleURLKeyAnnotation \<equiv> ''expose.config.fabric8.io/console-url-key''"

abbreviation ExposeConfigApiServerProtocolKeyAnnotation :: string where
  "ExposeConfigApiServerProtocolKeyAnnotation \<equiv> ''expose.config.fabric8.io/apiserver-protocol-key''"

abbreviation ExposeConfigOAuthAuthorizeURLKeyAnnotation :: string where
  "ExposeConfigOAuthAuthorizeURLKeyAnnotation \<equiv> ''expose.config.fabric8.io/oauth-authorize-url-key''"

abbreviation ExposeConfigYamlAnnotation :: string where
  "ExposeConfigYamlAnnotation \<equiv> ''expose.config.fabric8.io/config-yaml''"

section \<open>Helpers\<close>

fun GetServicePort_loop :: "service_port list \<Rightarrow> string" where
  "GetServicePort_loop [] = ''''"
| "GetServicePort_loop (port # ports) =
     (let tp = StrVal (TargetPort port); i = sint (IntVal (TargetPort port))
      in if tp \<noteq> '''' then tp
         else if i > 0 then Itoa i
         else GetServicePort_loop ports)"

definition GetServicePort :: "service \<Rightarrow> string" where
  "GetServicePort svc = GetServicePort_loop (Ports svc)"

fun firstMapValue :: "string \<Rightarrow> gomap list \<Rightarrow> string" where
  "firstMapValue key [] = ''''"
| "firstMapValue key (m # ms) =
     (if m \<noteq> None \<and> mget m key \<noteq> '''' then mget m key else firstMapValue key ms)"

definition urlPath :: "string \<Rightarrow> string" where
  "urlPath urlText =
     (case Parse urlText of
        None \<Rightarrow> ''/''
      | Some u \<Rightarrow>
          (let answer = (if UrlPath u \<noteq> '''' then UrlPath u else ''/'')
           in if HasPrefix answer ''/'' then answer else ''/'' @ answer))"

definition isOpenShift :: "('w, 'b) client \<Rightarrow> 'b golib \<Rightarrow> 'w \<Rightarrow> bool" where
  "isOpenShift K L w =
     (case root_paths K w of
        (_, Some e) \<Rightarrow> False
      | (res, None) \<Rightarrow>
          (case decode_root_paths L res of
             (_, Some e) \<Rightarrow> False
           | (paths, None) \<Rightarrow> ''/oapi'' \<in> set paths))"

section \<open>ConfigYaml\<close>

text \<open>
  The method returns whether it changed the ConfigMap; the ConfigMap is returned with it. A key
  whose value is not empty is in a map that is not nil.
\<close>

definition replace_line :: "config_yaml \<Rightarrow> string \<Rightarrow> string \<Rightarrow> string" where
  "replace_line c expValue line =
     (if HasPrefix line (Prefix c) then Prefix c @ expValue @ Suffix c else line)"

definition replace_lines :: "config_yaml \<Rightarrow> string \<Rightarrow> string \<Rightarrow> string" where
  "replace_lines c expValue value =
     concat (map (\<lambda>line. replace_line c expValue line @ [CHR 0x0A]) (Split value CHR 0x0A))"

definition UpdateConfigMap :: "config_yaml \<Rightarrow> config_map \<Rightarrow> (string \<Rightarrow> string) \<Rightarrow> config_map \<times> bool" where
  "UpdateConfigMap c cm values =
     (let expValue = values (Expression c); value = mget (Data cm) (Key c)
      in if Key c = '''' \<or> expValue = '''' \<or> value = '''' then (cm, False)
         else let newValue = replace_lines c expValue value
              in if newValue \<noteq> value then (cm\<lparr>Data := Some (fmupd (Key c) newValue (mmake (Data cm)))\<rparr>, True)
                 else (cm, False))"

fun UpdateConfigMap_all ::
  "config_yaml list \<Rightarrow> (string \<Rightarrow> string) \<Rightarrow> config_map \<times> bool \<Rightarrow> config_map \<times> bool" where
  "UpdateConfigMap_all [] values (cm, updated) = (cm, updated)"
| "UpdateConfigMap_all (c # cs) values (cm, updated) =
     (case UpdateConfigMap c cm values of (cm', u) \<Rightarrow> UpdateConfigMap_all cs values (cm', updated \<or> u))"


section \<open>The ConfigMap of the service\<close>

text \<open>
  One \<^verbatim>\<open>if len(key) > 0 { if cm.Data[key] != value { cm.Data[key] = value; updated = true } }\<close>; the
  variant for the cluster port writes only over an empty value. Writing to nil data panics.
\<close>

datatype setting = Set string string | SetIfEmpty string string

fun setting_key :: "setting \<Rightarrow> string" where
  "setting_key (Set k v) = k"
| "setting_key (SetIfEmpty k v) = k"

definition putData :: "string \<Rightarrow> string \<Rightarrow> config_map \<Rightarrow> (config_map \<times> bool) outcome" where
  "putData k v cm =
     (case mput (Data cm) k v of
        None \<Rightarrow> Panic ''assignment to entry in nil map''
      | Some d \<Rightarrow> Ok (cm\<lparr>Data := d\<rparr>, True))"

fun apply_setting :: "setting \<Rightarrow> config_map \<times> bool \<Rightarrow> (config_map \<times> bool) outcome" where
  "apply_setting (Set k v) (cm, updated) =
     (if k \<noteq> '''' \<and> mget (Data cm) k \<noteq> v then putData k v cm else Ok (cm, updated))"
| "apply_setting (SetIfEmpty k v) (cm, updated) =
     (if k \<noteq> '''' \<and> mget (Data cm) k = '''' then putData k v cm else Ok (cm, updated))"

fun apply_settings :: "setting list \<Rightarrow> config_map \<times> bool \<Rightarrow> (config_map \<times> bool) outcome" where
  "apply_settings [] cu = Ok cu"
| "apply_settings (s # ss) cu = outcome_bind (apply_setting s cu) (apply_settings ss)"

definition apiserverURL_of :: "config \<Rightarrow> string" where
  "apiserverURL_of config =
     (if ApiServer config \<noteq> '''' then ApiServerProtocol config @ ''://'' @ ApiServer config else '''')"

text \<open>The controller has its own copy of \<^verbatim>\<open>urlJoin\<close>.\<close>

definition console_urlJoin :: "string \<Rightarrow> string \<Rightarrow> string" where
  "console_urlJoin s1 s2 = TrimSuffix s1 ''/'' @ ''/'' @ TrimPrefix s2 ''/''"

definition consoleURL_of :: "bool \<Rightarrow> config \<Rightarrow> string" where
  "consoleURL_of openshift config =
     (if ApiServer config \<noteq> '''' \<and> ConsoleURL config = '''' \<and> openshift
      then console_urlJoin (apiserverURL_of config) ''/console'' else ConsoleURL config)"

definition exposeHost_of :: "string \<Rightarrow> string" where
  "exposeHost_of exposeURL = (case Parse exposeURL of None \<Rightarrow> '''' | Some u \<Rightarrow> Host u)"

text \<open>The settings of the API server and the console, in the order of the code.\<close>

definition server_settings :: "bool \<Rightarrow> bool \<Rightarrow> config \<Rightarrow> string \<Rightarrow> config_map \<Rightarrow> setting list" where
  "server_settings openshift has_oc config authorizeURL cm =
     (if ApiServer config \<noteq> '''' then
        [Set (annotation cm ExposeConfigApiServerKeyAnnotation) (ApiServer config),
         Set (annotation cm ExposeConfigApiServerURLKeyAnnotation) (apiserverURL_of config)] else []) @
     (if consoleURL_of openshift config \<noteq> '''' then
        [Set (annotation cm ExposeConfigConsoleURLKeyAnnotation) (consoleURL_of openshift config)] else []) @
     [Set (annotation cm ExposeConfigApiServerProtocolKeyAnnotation) (ApiServerProtocol config)] @
     (if authorizeURL \<noteq> '''' \<and> has_oc then
        [Set (annotation cm ExposeConfigOAuthAuthorizeURLKeyAnnotation) authorizeURL] else [])"

text \<open>The settings of the cluster address.\<close>

definition cluster_settings :: "service \<Rightarrow> config_map \<Rightarrow> setting list" where
  "cluster_settings svc cm =
     (let clusterIP = ClusterIP svc;
          key = (\<lambda>k. firstMapValue k [Annotations svc, Annotations cm]);
          port = GetServicePort svc
      in if clusterIP = '''' then []
         else [Set (key ExposeConfigClusterIPKeyAnnotation) clusterIP] @
              (if port \<noteq> '''' then
                 [Set (key ExposeConfigClusterIPPortKeyAnnotation) (clusterIP @ '':'' @ port),
                  SetIfEmpty (key ExposeConfigClusterIPPortIfEmptyKeyAnnotation) (clusterIP @ '':'' @ port)]
               else []))"

text \<open>The settings of the exposed URL, without the ConfigYaml settings that follow them.\<close>

definition url_settings :: "service \<Rightarrow> config_map \<Rightarrow> setting list" where
  "url_settings svc cm =
     (let exposeURL = annotation svc ExposeAnnotationKey;
          host = exposeHost_of exposeURL
      in if exposeURL = '''' then []
         else [Set (annotation cm ExposeConfigURLKeyAnnotation) exposeURL] @
              (if host \<noteq> '''' then [Set (annotation cm ExposeConfigHostKeyAnnotation) host] else []) @
              [Set (annotation cm ExposeConfigClusterPathKeyAnnotation) (urlPath exposeURL)])"

definition expression_values :: "bool \<Rightarrow> config \<Rightarrow> string \<Rightarrow> string \<Rightarrow> string" where
  "expression_values openshift config exposeURL name =
     (if name = ''host'' then exposeHost_of exposeURL
      else if name = ''url'' then exposeURL
      else if name = ''apiserver'' then ApiServer config
      else if name = ''apiserverURL'' then apiserverURL_of config
      else if name = ''apiserverProtocol'' then ApiServerProtocol config
      else if name = ''consoleURL'' then consoleURL_of openshift config
      else '''')"

text \<open>The ConfigMap as \<^verbatim>\<open>updateServiceConfigMap\<close> changes it, and whether it did.\<close>

definition serviceConfigMap_plan ::
  "yaml_lib \<Rightarrow> bool \<Rightarrow> bool \<Rightarrow> config \<Rightarrow> string \<Rightarrow> service \<Rightarrow> config_map \<Rightarrow> (config_map \<times> bool) outcome" where
  "serviceConfigMap_plan Y openshift has_oc config authorizeURL svc cm =
     outcome_bind
       (apply_settings (server_settings openshift has_oc config authorizeURL cm @ cluster_settings svc cm @
          url_settings svc cm) (cm, False))
       (\<lambda>cu.
          let exposeURL = annotation svc ExposeAnnotationKey;
              configYaml = annotation svc ExposeConfigYamlAnnotation
          in if exposeURL = '''' \<or> configYaml = '''' then Ok cu
             else case decode_config_yamls Y configYaml of
                    Inl e \<Rightarrow> Ok cu
                  | Inr configs \<Rightarrow> Ok (UpdateConfigMap_all configs (expression_values openshift config exposeURL) cu))"

text \<open>
  Errors of the server are logged and dropped; only a panic leaves the function abnormally. The
  deployments are rolled whether or not the update of the ConfigMap succeeded.
\<close>

definition saveServiceConfigMap :: "('w, 'b) client \<Rightarrow> 'b golib \<Rightarrow> string \<Rightarrow> config_map \<Rightarrow> 'w \<Rightarrow> unit outcome \<times> 'w" where
  [simp]: "saveServiceConfigMap K L ns cm w =
     (case configmaps_update K ns cm w of
        (_, w1) \<Rightarrow> (case rollingUpgradeDeployments K L cm w1 of (_, w2) \<Rightarrow> (Ok (), w2)))"

definition updateServiceConfigMap ::
  "('w, 'b) client \<Rightarrow> 'w oclient option \<Rightarrow> 'b golib \<Rightarrow> yaml_lib \<Rightarrow> service \<Rightarrow> config \<Rightarrow> string \<Rightarrow> 'w \<Rightarrow>
   unit outcome \<times> 'w" where
  "updateServiceConfigMap K oc L Y svc config authorizeURL w =
     (case configmaps_get K (Namespace svc) (Name svc) w of
        Inl e \<Rightarrow> (Ok (), w)
      | Inr cm \<Rightarrow>
          (case serviceConfigMap_plan Y (isOpenShift K L w) (oc \<noteq> None) config authorizeURL svc cm of
             Err e \<Rightarrow> (Ok (), w)
           | Panic p \<Rightarrow> (Panic p, w)
           | Ok (cm', updated) \<Rightarrow>
               if updated then saveServiceConfigMap K L (Namespace svc) cm' w else (Ok (), w)))"

section \<open>The other ConfigMaps\<close>

text \<open>
  The loop over the comma separated keys of an annotation, on the data of one ConfigMap (which the
  code has made non-nil before) and the flag \<^verbatim>\<open>update\<close>.
\<close>

definition setKeys :: "string \<Rightarrow> string \<Rightarrow> (string, string) fmap \<times> bool \<Rightarrow> (string, string) fmap \<times> bool" where
  "setKeys updateKey value du =
     foldl (\<lambda>(data, update) key. if fget data key \<noteq> value then (fmupd key value data, True) else (data, update))
       du (Split updateKey CHR '','')"

definition trim_protocol :: "string \<Rightarrow> string" where
  "trim_protocol url = TrimPrefix (TrimPrefix url ''http://'') ''https://''"

definition with_slash :: "string \<Rightarrow> string" where
  "with_slash url = (if HasSuffix url ''/'' then url else url @ ''/'')"

definition no_path_url :: "string \<Rightarrow> string option" where
  "no_path_url exposeURL = map_option (\<lambda>u. URL_String (u\<lparr>UrlPath := ''/''\<rparr>)) (Parse exposeURL)"

text \<open>
  One block per annotation: the state is the variable \<^verbatim>\<open>exposeURL\<close>, the data and the flag. The
  variable is assigned to and keeps its value.
\<close>

type_synonym inject_state = "string \<times> (string, string) fmap \<times> bool"

definition inject_url :: "(string \<Rightarrow> string) \<Rightarrow> string \<Rightarrow> inject_state \<Rightarrow> inject_state" where
  "inject_url f updateKey st =
     (case st of (exposeURL, du) \<Rightarrow>
        if updateKey = '''' then st else (f exposeURL, setKeys updateKey (f exposeURL) du))"

definition inject_no_path :: "string \<Rightarrow> inject_state \<Rightarrow> inject_state" where
  "inject_no_path updateKey st =
     (case st of (exposeURL, du) \<Rightarrow>
        if updateKey = '''' then st
        else case no_path_url exposeURL of
               None \<Rightarrow> st
             | Some noPathURL \<Rightarrow> (exposeURL, setKeys updateKey noPathURL du))"

definition inject_protocol :: "bool \<Rightarrow> string \<Rightarrow> inject_state \<Rightarrow> inject_state" where
  "inject_protocol http updateKey st =
     (case st of (exposeURL, du) \<Rightarrow>
        if updateKey = '''' then st else (exposeURL, setKeys updateKey (if http then ''http'' else ''https'') du))"

definition injectConfigMap :: "string \<Rightarrow> bool \<Rightarrow> config_map \<Rightarrow> string \<Rightarrow> inject_state" where
  "injectConfigMap serviceName http cm exposeURL =
     (let a = (\<lambda>k. annotation cm (k @ serviceName));
          s0 = (exposeURL, mmake (Data cm), False);
          s1 = inject_url (\<lambda>u. TrimSuffix u ''/'') (a ''expose.service-key.config.fabric8.io/'') s0;
          s2 = inject_url with_slash (a ''expose-full.service-key.config.fabric8.io/'') s1;
          s3 = inject_no_path (a ''expose-no-path.service-key.config.fabric8.io/'') s2;
          s4 = inject_url (\<lambda>u. trim_protocol (TrimSuffix u ''/'')) (a ''expose-no-protocol.service-key.config.fabric8.io/'') s3;
          s5 = inject_url (\<lambda>u. trim_protocol (with_slash u)) (a ''expose-full-no-protocol.service-key.config.fabric8.io/'') s4
      in inject_protocol http (annotation cm ExposeConfigURLProtocol) s5)"

text \<open>The loop over the listed ConfigMaps; the variable goes from one to the next.\<close>

fun otherConfigMaps_loop ::
  "('w, 'b) client \<Rightarrow> string \<Rightarrow> string \<Rightarrow> bool \<Rightarrow> config_map list \<Rightarrow> string \<Rightarrow> 'w \<Rightarrow> unit outcome \<times> 'w" where
  "otherConfigMaps_loop K ns serviceName http [] exposeURL w = (Ok (), w)"
| "otherConfigMaps_loop K ns serviceName http (cm # cms) exposeURL w =
     (case injectConfigMap serviceName http cm exposeURL of
        (exposeURL', data, update) \<Rightarrow>
          if update then
            (case configmaps_update K ns (cm\<lparr>Data := Some data\<rparr>) w of
               (Inl e, w') \<Rightarrow>
                 (Err (ErrMsg (''Failed to update ConfigMap '' @ Name cm @ '' in namespace '' @ ns @ '' with key '' @
                    annotation cm ExposeConfigURLProtocol)), w')
             | (Inr _, w') \<Rightarrow> otherConfigMaps_loop K ns serviceName http cms exposeURL' w')
          else otherConfigMaps_loop K ns serviceName http cms exposeURL' w)"

definition updateOtherConfigMaps ::
  "('w, 'b) client \<Rightarrow> service \<Rightarrow> config \<Rightarrow> string \<Rightarrow> 'w \<Rightarrow> unit outcome \<times> 'w" where
  "updateOtherConfigMaps K svc config exposeURL w =
     (case configmaps_list K (Namespace svc) w of
        Inl e \<Rightarrow> (Err (ApiErr e), w)
      | Inr cms \<Rightarrow> otherConfigMaps_loop K (Namespace svc) (Name svc) (HTTPOnly config) cms exposeURL w)"


section \<open>Properties of the lines\<close>

lemma count_concat_lines:
  "count_list (concat (map (\<lambda>l. f l @ [c]) ls)) c \<ge> length ls"
  by (induction ls) auto

lemma length_Split: "length (Split s c) = Suc (count_list s c)"
  by (induction s c rule: Split.induct) (auto split: list.splits)

lemma replace_lines_grows: "count_list (replace_lines c e v) (CHR 0x0A) > count_list v (CHR 0x0A)"
  using count_concat_lines [where f = "replace_line c e" and c = "CHR 0x0A" and ls = "Split v CHR 0x0A"]
  by (simp add: replace_lines_def length_Split)

lemma UpdateConfigMap_cases:
  "UpdateConfigMap c cm values =
     (if Key c \<noteq> '''' \<and> values (Expression c) \<noteq> '''' \<and> mget (Data cm) (Key c) \<noteq> ''''
      then (cm\<lparr>Data := Some (fmupd (Key c) (replace_lines c (values (Expression c)) (mget (Data cm) (Key c))) (mmake (Data cm)))\<rparr>, True)
      else (cm, False))"
  using replace_lines_grows [of "mget (Data cm) (Key c)" c "values (Expression c)"]
  by (auto simp: UpdateConfigMap_def Let_def)

text \<open>
  C36: \<^verbatim>\<open>ConfigYaml.UpdateConfigMap\<close> never settles. It reports a change exactly when it has a key, a
  value for its expression and text under the key, whether or not a line of the text differs from
  what it should be; otherwise it leaves the ConfigMap alone. When it has them, every one of \<open>n\<close>
  calls reports a change, and after them the text has at least \<open>n\<close> more lines than before.
\<close>

theorem UpdateConfigMap_never_settles:
  "let call = (\<lambda>cm. UpdateConfigMap c cm values);
       lines = (\<lambda>cm. length (Split (mget (Data cm) (Key c)) CHR 0x0A));
       active = (Key c \<noteq> '''' \<and> values (Expression c) \<noteq> '''' \<and> mget (Data cm) (Key c) \<noteq> '''');
       after = ((\<lambda>cm. fst (call cm)) ^^ n) cm
   in if active then snd (call after) \<and> lines after \<ge> lines cm + n else call after = (cm, False)"
proof (induction n)
  case 0
  show ?case by (simp add: UpdateConfigMap_cases)
next
  case (Suc n)
  let ?after = "((\<lambda>cm. fst (UpdateConfigMap c cm values)) ^^ n) cm"
  show ?case
  proof (cases "Key c \<noteq> '''' \<and> values (Expression c) \<noteq> '''' \<and> mget (Data cm) (Key c) \<noteq> ''''")
    case True
    from Suc [unfolded Let_def if_P [OF True]] have IH: "snd (UpdateConfigMap c ?after values)"
      "length (Split (mget (Data ?after) (Key c)) CHR 0x0A) \<ge> length (Split (mget (Data cm) (Key c)) CHR 0x0A) + n"
      by blast+
    let ?text = "replace_lines c (values (Expression c)) (mget (Data ?after) (Key c))"
    from IH(1) have new: "mget (Data (fst (UpdateConfigMap c ?after values))) (Key c) = ?text"
      by (simp add: UpdateConfigMap_cases split: if_splits)
    have more: "length (Split ?text CHR 0x0A) > length (Split (mget (Data ?after) (Key c)) CHR 0x0A)"
      using replace_lines_grows by (simp add: length_Split)
    then have "?text \<noteq> ''''" by (auto simp: length_Split)
    with True IH(2) new more show ?thesis by (simp add: UpdateConfigMap_cases [of c "fst (UpdateConfigMap c ?after values)"])
  next
    case False
    with Suc [unfolded Let_def] have "UpdateConfigMap c ?after values = (cm, False)" by simp
    moreover from False have "UpdateConfigMap c cm values = (cm, False)" by (auto simp: UpdateConfigMap_cases)
    ultimately show ?thesis using False by simp
  qed
qed

section \<open>Properties of the settings\<close>

fun setting_value :: "setting \<Rightarrow> string" where
  "setting_value (Set k v) = v"
| "setting_value (SetIfEmpty k v) = v"

text \<open>The data are as the setting wants them.\<close>

fun holds :: "gomap \<Rightarrow> setting \<Rightarrow> bool" where
  "holds d (Set k v) \<longleftrightarrow> k = '''' \<or> mget d k = v"
| "holds d (SetIfEmpty k v) \<longleftrightarrow> k = '''' \<or> mget d k \<noteq> ''''"

text \<open>No two settings with a key name the same one, and a conditional setting has a value.\<close>

definition settings_ok :: "setting list \<Rightarrow> bool" where
  "settings_ok ss \<longleftrightarrow>
     distinct (filter (\<lambda>k. k \<noteq> '''') (map setting_key ss)) \<and>
     list_all (\<lambda>s. case s of Set _ _ \<Rightarrow> True | SetIfEmpty _ v \<Rightarrow> v \<noteq> '''') ss"

lemma apply_setting_holds: "holds (Data cm) s \<Longrightarrow> apply_setting s (cm, u) = Ok (cm, u)"
  by (cases s) auto

lemma apply_setting_put:
  "\<not> holds (Data cm) s \<Longrightarrow> apply_setting s (cm, u) = putData (setting_key s) (setting_value s) cm"
  by (cases s) auto

lemma holds_put_other:
  "setting_key s \<noteq> k \<or> setting_key s = '''' \<Longrightarrow> holds (Some (fmupd k v m)) s = holds (Some m) s"
  by (cases s) auto

lemma holds_put_same:
  "setting_key s = k \<Longrightarrow> setting_value s = v \<Longrightarrow> settings_ok [s] \<Longrightarrow> holds (Some (fmupd k v m)) s"
  by (cases s) (auto simp: settings_ok_def)

lemma settings_ok_Cons:
  "settings_ok (s # ss) \<Longrightarrow> settings_ok [s] \<and> settings_ok ss \<and>
   (setting_key s = '''' \<or> setting_key s \<notin> setting_key ` set ss)"
  by (auto simp: settings_ok_def split: if_splits)

lemma not_holds_key: "\<not> holds d s \<Longrightarrow> setting_key s \<noteq> ''''"
  by (cases s) auto

lemma apply_settings_held: "list_all (holds (Data cm)) ss \<Longrightarrow> apply_settings ss (cm, u) = Ok (cm, u)"
  by (induction ss) (simp_all add: apply_setting_holds)

lemma apply_settings_nil:
  assumes "Data cm = None" "\<not> list_all (holds (Data cm)) ss"
  shows "\<exists>p. apply_settings ss (cm, u) = Panic p"
  using assms
proof (induction ss)
  case (Cons s ss)
  show ?case
  proof (cases "holds (Data cm) s")
    case True
    with Cons show ?thesis by (simp add: apply_setting_holds)
  next
    case False
    with Cons.prems(1) show ?thesis by (simp add: apply_setting_put putData_def mput_def)
  qed
qed simp

lemma apply_settings_some:
  assumes "Data cm = Some m" "settings_ok ss"
  shows "\<exists>m'. apply_settings ss (cm, u) = Ok (cm\<lparr>Data := Some m'\<rparr>, u \<or> \<not> list_all (holds (Some m)) ss) \<and>
     list_all (holds (Some m')) ss \<and> (\<forall>k. k \<notin> setting_key ` set ss \<longrightarrow> fget m' k = fget m k)"
  using assms
proof (induction ss arbitrary: cm m u)
  case Nil
  then show ?case by (intro exI [of _ m]) (cases cm, simp)
next
  case (Cons s ss)
  note ok = settings_ok_Cons [OF Cons.prems(2)]
  show ?case
  proof (cases "holds (Some m) s")
    case True
    then have step: "apply_setting s (cm, u) = Ok (cm, u)" using Cons.prems(1) by (simp add: apply_setting_holds)
    from Cons.IH [OF Cons.prems(1), of u] ok obtain m' where
      m': "apply_settings ss (cm, u) = Ok (cm\<lparr>Data := Some m'\<rparr>, u \<or> \<not> list_all (holds (Some m)) ss)"
      "list_all (holds (Some m')) ss" "\<forall>k. k \<notin> setting_key ` set ss \<longrightarrow> fget m' k = fget m k" by blast
    have "holds (Some m') s" using True ok m'(3) by (cases s) auto
    with m' step True show ?thesis by (intro exI [of _ m']) simp
  next
    case False
    let ?m = "fmupd (setting_key s) (setting_value s) m"
    let ?cm = "cm\<lparr>Data := Some ?m\<rparr>"
    have step: "apply_setting s (cm, u) = Ok (?cm, True)"
      using Cons.prems(1) False by (simp add: apply_setting_put putData_def)
    have same: "list_all (holds (Some ?m)) ss = list_all (holds (Some m)) ss"
      using ok not_holds_key [OF False] by (intro list.pred_cong refl holds_put_other) (metis image_eqI)
    from Cons.IH [of ?cm ?m True] ok obtain m' where
      m': "apply_settings ss (?cm, True) = Ok (?cm\<lparr>Data := Some m'\<rparr>, True)"
      "list_all (holds (Some m')) ss" "\<forall>k. k \<notin> setting_key ` set ss \<longrightarrow> fget m' k = fget ?m k" by auto
    have "holds (Some m') s"
      using holds_put_same [of s _ _ m] ok m'(3) not_holds_key [OF False] by (cases s) auto
    with m' step False show ?thesis by (intro exI [of _ m']) auto
  qed
qed

text \<open>All the settings of a service and its ConfigMap.\<close>

definition all_settings :: "bool \<Rightarrow> bool \<Rightarrow> config \<Rightarrow> string \<Rightarrow> service \<Rightarrow> config_map \<Rightarrow> setting list" where
  "all_settings openshift has_oc config authorizeURL svc cm =
     server_settings openshift has_oc config authorizeURL cm @ cluster_settings svc cm @ url_settings svc cm"

lemma all_settings_Data [simp]:
  "all_settings openshift has_oc config authorizeURL svc (cm\<lparr>Data := d\<rparr>) =
   all_settings openshift has_oc config authorizeURL svc cm"
  by (simp add: all_settings_def server_settings_def cluster_settings_def url_settings_def Let_def)

lemma plan_without_yaml:
  "annotation svc ExposeConfigYamlAnnotation = '''' \<Longrightarrow>
   serviceConfigMap_plan Y openshift has_oc config authorizeURL svc cm =
     apply_settings (all_settings openshift has_oc config authorizeURL svc cm) (cm, False)"
  by (cases "apply_settings (all_settings openshift has_oc config authorizeURL svc cm) (cm, False)")
    (simp_all add: serviceConfigMap_plan_def all_settings_def)


definition url_config_map :: config_map where
  "url_config_map = empty_config_map\<lparr>Data := Some fmempty,
     Annotations := Some (fmupd ExposeConfigURLKeyAnnotation ''url'' fmempty)\<rparr>"

definition exposed_service :: service where
  "exposed_service = example_service\<lparr>Annotations := Some (fmupd ExposeAnnotationKey ''http://web.io'' fmempty)\<rparr>"


section \<open>Properties of the injected values\<close>

text \<open>The writes of one ConfigMap as a list of keys and values, in the order of the code.\<close>

definition key_writes :: "string \<Rightarrow> string \<Rightarrow> (string \<times> string) list" where
  "key_writes updateKey value =
     (if updateKey = '''' then [] else map (\<lambda>k. (k, value)) (Split updateKey CHR '',''))"

definition do_writes ::
  "(string \<times> string) list \<Rightarrow> (string, string) fmap \<times> bool \<Rightarrow> (string, string) fmap \<times> bool" where
  "do_writes ws du =
     foldl (\<lambda>(data, update) (k, v). if fget data k \<noteq> v then (fmupd k v data, True) else (data, update)) du ws"

lemma do_writes_append: "do_writes (ws @ vs) du = do_writes vs (do_writes ws du)"
  by (simp add: do_writes_def)

lemma do_writes_Nil [simp]: "do_writes [] du = du"
  by (simp add: do_writes_def)

lemma setKeys_writes:
  assumes "updateKey \<noteq> ''''"
  shows "setKeys updateKey value du = do_writes (key_writes updateKey value) du"
proof -
  have "foldl (\<lambda>(data, update) key. if fget data key \<noteq> value then (fmupd key value data, True) else (data, update))
      du ks = do_writes (map (\<lambda>k. (k, value)) ks) du" for ks
    by (induction ks arbitrary: du) (auto simp: do_writes_def)
  with assms show ?thesis by (simp add: setKeys_def key_writes_def)
qed

text \<open>The value of the variable \<^verbatim>\<open>exposeURL\<close> after each block.\<close>

definition url_after :: "(string \<Rightarrow> string) \<Rightarrow> string \<Rightarrow> string \<Rightarrow> string" where
  "url_after f updateKey url = (if updateKey = '''' then url else f url)"

definition inject_writes :: "string \<Rightarrow> bool \<Rightarrow> config_map \<Rightarrow> string \<Rightarrow> (string \<times> string) list" where
  "inject_writes serviceName http cm url =
     (let a = (\<lambda>k. annotation cm (k @ serviceName));
          plain = a ''expose.service-key.config.fabric8.io/'';
          full = a ''expose-full.service-key.config.fabric8.io/'';
          nopath = a ''expose-no-path.service-key.config.fabric8.io/'';
          noproto = a ''expose-no-protocol.service-key.config.fabric8.io/'';
          fullnoproto = a ''expose-full-no-protocol.service-key.config.fabric8.io/'';
          u1 = url_after (\<lambda>u. TrimSuffix u ''/'') plain url;
          u2 = url_after with_slash full u1;
          u4 = url_after (\<lambda>u. trim_protocol (TrimSuffix u ''/'')) noproto u2;
          u5 = url_after (\<lambda>u. trim_protocol (with_slash u)) fullnoproto u4
      in key_writes plain u1 @ key_writes full u2 @
         (case no_path_url u2 of None \<Rightarrow> [] | Some v \<Rightarrow> key_writes nopath v) @
         key_writes noproto u4 @ key_writes fullnoproto u5 @
         key_writes (annotation cm ExposeConfigURLProtocol) (if http then ''http'' else ''https''))"

lemma inject_url_eq:
  "inject_url f uk (url, du) = (url_after f uk url, do_writes (key_writes uk (url_after f uk url)) du)"
  by (simp add: inject_url_def url_after_def setKeys_writes key_writes_def)

lemma inject_no_path_eq:
  "inject_no_path uk (url, du) =
     (url, do_writes (case no_path_url url of None \<Rightarrow> [] | Some v \<Rightarrow> key_writes uk v) du)"
  by (auto simp: inject_no_path_def setKeys_writes key_writes_def split: option.splits)

lemma inject_protocol_eq:
  "inject_protocol http uk (url, du) = (url, do_writes (key_writes uk (if http then ''http'' else ''https'')) du)"
  by (simp add: inject_protocol_def setKeys_writes key_writes_def)

lemma injectConfigMap_writes:
  "snd (injectConfigMap serviceName http cm url) =
     do_writes (inject_writes serviceName http cm url) (mmake (Data cm), False)"
  by (simp add: injectConfigMap_def inject_writes_def Let_def inject_url_eq inject_no_path_eq inject_protocol_eq
      do_writes_append)

lemma do_writes_effect:
  assumes "distinct (map fst ws)"
  shows "\<exists>m'. do_writes ws (m, b) = (m', b \<or> (\<exists>(k, v) \<in> set ws. fget m k \<noteq> v)) \<and>
     (\<forall>k. fget m' k = (case map_of ws k of Some v \<Rightarrow> v | None \<Rightarrow> fget m k))"
  using assms
proof (induction ws arbitrary: m b)
  case (Cons kv ws)
  obtain k v where kv: "kv = (k, v)" by (cases kv)
  let ?m = "if fget m k \<noteq> v then fmupd k v m else m"
  have step: "do_writes (kv # ws) (m, b) = do_writes ws (?m, b \<or> fget m k \<noteq> v)"
    by (simp add: do_writes_def kv)
  have fresh: "k' \<noteq> k" if "(k', v') \<in> set ws" for k' v' using Cons.prems that by (force simp: kv)
  have m: "fget ?m k' = (if k' = k then v else fget m k')" for k' by simp
  have same: "(\<exists>(k', v') \<in> set ws. fget ?m k' \<noteq> v') \<longleftrightarrow> (\<exists>(k', v') \<in> set ws. fget m k' \<noteq> v')"
    using fresh by (intro bex_cong refl) (auto simp: m)
  have k: "map_of ws k = None" using Cons.prems by (simp add: kv map_of_eq_None_iff)
  from Cons.IH [of ?m "b \<or> fget m k \<noteq> v"] Cons.prems obtain m' where
    m': "do_writes ws (?m, b \<or> fget m k \<noteq> v) = (m', (b \<or> fget m k \<noteq> v) \<or> (\<exists>(k', v') \<in> set ws. fget ?m k' \<noteq> v'))"
      "\<forall>k'. fget m' k' = (case map_of ws k' of Some v \<Rightarrow> v | None \<Rightarrow> fget ?m k')" by auto
  have "fget m' k' = (case map_of (kv # ws) k' of Some v \<Rightarrow> v | None \<Rightarrow> fget m k')" for k'
    using m'(2) k by (auto simp: kv m split: option.splits)
  with m'(1) show ?case unfolding step same by (intro exI [of _ m']) (auto simp: kv)
qed simp

lemma injectConfigMap_data:
  assumes "distinct (map fst (inject_writes serviceName http cm url))"
    and "injectConfigMap serviceName http cm url = (u, data, update)"
  shows "\<forall>k. fget data k = (case map_of (inject_writes serviceName http cm url) k of
       Some v \<Rightarrow> v | None \<Rightarrow> mget (Data cm) k)"
    and "update = (\<exists>(k, v) \<in> set (inject_writes serviceName http cm url). mget (Data cm) k \<noteq> v)"
proof -
  let ?ws = "inject_writes serviceName http cm url"
  obtain m' where m': "do_writes ?ws (mmake (Data cm), False) = (m', False \<or> (\<exists>(k, v) \<in> set ?ws. fget (mmake (Data cm)) k \<noteq> v))"
    "\<forall>k. fget m' k = (case map_of ?ws k of Some v \<Rightarrow> v | None \<Rightarrow> fget (mmake (Data cm)) k)"
    using do_writes_effect [OF assms(1)] by blast
  have "(data, update) = do_writes ?ws (mmake (Data cm), False)"
    using injectConfigMap_writes [of serviceName http cm url] assms(2) by simp
  then have eqs: "data = m'" "update = (False \<or> (\<exists>(k, v) \<in> set ?ws. fget (mmake (Data cm)) k \<noteq> v))"
    unfolding m'(1) by simp_all
  show "\<forall>k. fget data k = (case map_of ?ws k of Some v \<Rightarrow> v | None \<Rightarrow> mget (Data cm) k)"
    using m'(2) unfolding eqs(1) fget_mmake .
  show "update = (\<exists>(k, v) \<in> set ?ws. mget (Data cm) k \<noteq> v)"
    using eqs(2) by simp
qed

text \<open>
  C16: what is injected into one ConfigMap, when its annotations name no key twice: each named key
  gets the form of the URL its annotation asks for (without a trailing slash, with one, without
  the path, without the protocol, or the protocol alone), other entries stay, an update is sent
  exactly when some entry differed, and a ConfigMap that was updated is not updated again for the
  same URL.
\<close>

theorem injectConfigMap_effect:
  assumes "distinct (map fst (inject_writes serviceName http cm url))"
  shows "let ws = inject_writes serviceName http cm url
         in case injectConfigMap serviceName http cm url of
              (_, data, update) \<Rightarrow>
                (\<forall>k. fget data k = (case map_of ws k of Some v \<Rightarrow> v | None \<Rightarrow> mget (Data cm) k)) \<and>
                update = list_ex (\<lambda>(k, v). mget (Data cm) k \<noteq> v) ws \<and>
                snd (snd (injectConfigMap serviceName http (cm\<lparr>Data := Some data\<rparr>) url)) = False"
proof -
  let ?ws = "inject_writes serviceName http cm url"
  obtain u data update where inj: "injectConfigMap serviceName http cm url = (u, data, update)"
    by (cases "injectConfigMap serviceName http cm url") auto
  note d = injectConfigMap_data(1) [OF assms inj] and up = injectConfigMap_data(2) [OF assms inj]
  have ws: "inject_writes serviceName http (cm\<lparr>Data := Some data\<rparr>) url = ?ws"
    by (simp add: inject_writes_def Let_def)
  have "fget data k = v" if "(k, v) \<in> set ?ws" for k v
    using d assms that by (simp add: map_of_is_SomeI)
  then have "\<not> (\<exists>(k, v) \<in> set ?ws. fget data k \<noteq> v)" by auto
  with do_writes_effect [OF assms, of data False]
  have "snd (snd (injectConfigMap serviceName http (cm\<lparr>Data := Some data\<rparr>) url)) = False"
    by (auto simp: injectConfigMap_writes ws)
  with inj d up show ?thesis by (simp add: list_ex_iff Let_def)
qed

definition two_key_map :: config_map where
  "two_key_map = empty_config_map\<lparr>Annotations := Some
     (fmupd ''expose.service-key.config.fabric8.io/web'' ''a,b''
       (fmupd ''expose-no-path.service-key.config.fabric8.io/web'' ''c'' fmempty))\<rparr>"

text \<open>The form without the path, for a URL of plain characters, is the protocol, the host and a slash.\<close>

theorem no_path_url_exposed:
  assumes "scheme = ''http'' \<or> scheme = ''https''" "plain_host h" "plain_path p"
  shows "no_path_url (scheme @ ''://'' @ h @ p) = Some (scheme @ ''://'' @ h @ ''/'') \<and>
    exposeHost_of (scheme @ ''://'' @ h @ p) = h \<and>
    urlPath (scheme @ ''://'' @ h @ p) = (if p = '''' then ''/'' else p)"
proof -
  have "scheme \<noteq> ''''" using assms(1) by auto
  with URL_String_root [OF this assms(2)] have
    "URL_String (empty_url\<lparr>Scheme := scheme, Host := h, UrlPath := ''/''\<rparr>) = scheme @ ''://'' @ h @ ''/''" by simp
  with Parse_exposed [OF assms] assms(3) show ?thesis
    by (auto simp: no_path_url_def exposeHost_of_def urlPath_def plain_path_def)
qed

theorem no_path_url_exposed_witness:
  "no_path_url ''https://web.dev.io:8080/api/v1'' = Some ''https://web.dev.io:8080/''"
proof -
  have "plain_host ''web.dev.io:8080''" "plain_path ''/api/v1''"
    by (simp_all add: plain_host_def plain_path_def plain_char_def alphanum_def)
  from no_path_url_exposed [OF _ this, of "''https''"] show ?thesis by simp
qed

lemma inject_writes_two_key:
  "inject_writes ''web'' False two_key_map ''https://web.io/'' =
     [(''a'', ''https://web.io''), (''b'', ''https://web.io''), (''c'', ''https://web.io/'')]"
proof -
  have a: "annotation two_key_map k =
      (if k = ''expose.service-key.config.fabric8.io/web'' then ''a,b''
       else if k = ''expose-no-path.service-key.config.fabric8.io/web'' then ''c'' else '''')" for k
    by (simp add: two_key_map_def)
  have "Parse (''https'' @ ''://'' @ ''web.io'' @ '''') =
      Some (empty_url\<lparr>Scheme := ''https'', Host := ''web.io'', UrlPath := ''''\<rparr>)"
    by (rule Parse_exposed) (simp_all add: plain_host_def plain_path_def plain_char_def alphanum_def)
  moreover have "URL_String (empty_url\<lparr>Scheme := ''https'', Host := ''web.io'', UrlPath := ''/''\<rparr>) =
      ''https'' @ ''://'' @ ''web.io'' @ ''/''"
    by (rule URL_String_root) (simp_all add: plain_host_def plain_char_def alphanum_def)
  ultimately have "no_path_url ''https://web.io'' = Some ''https://web.io/''"
    by (simp add: no_path_url_def)
  then show ?thesis
    by (simp add: inject_writes_def Let_def a key_writes_def url_after_def TrimSuffix_single)
qed

theorem injectConfigMap_effect_witness:
  "fget (fst (snd (injectConfigMap ''web'' False two_key_map ''https://web.io/''))) ''b'' = ''https://web.io'' \<and>
   fget (fst (snd (injectConfigMap ''web'' False two_key_map ''https://web.io/''))) ''c'' = ''https://web.io/''"
proof -
  have "distinct (map fst (inject_writes ''web'' False two_key_map ''https://web.io/''))"
    by (simp add: inject_writes_two_key)
  from injectConfigMap_effect [OF this] show ?thesis
    unfolding Let_def by (auto simp: inject_writes_two_key split: prod.splits)
qed

section \<open>The variable that goes from one ConfigMap to the next\<close>

text \<open>A ConfigMap whose only annotation asks for one form of the URL of a service under one key.\<close>

definition asks :: "string \<Rightarrow> string \<Rightarrow> string \<Rightarrow> config_map \<Rightarrow> bool" where
  "asks form serviceName key cm \<longleftrightarrow>
     Annotations cm = Some (fmupd (form @ serviceName) key fmempty) \<and> key \<noteq> '''' \<and> CHR '','' \<notin> set key"

lemma plain_host_no_slash: "plain_host h \<Longrightarrow> CHR ''/'' \<notin> set h"
proof
  assume "plain_host h" "CHR ''/'' \<in> set h"
  then have "plain_char CHR ''/''" by (auto simp: plain_host_def list_all_iff)
  with plain_char_facts(1) [of "CHR ''/''"] show False by simp
qed

lemma TrimPrefix_no_slash: "CHR ''/'' \<notin> set h \<Longrightarrow> CHR ''/'' \<in> set p \<Longrightarrow> TrimPrefix h p = h"
  by (rule TrimPrefix_id) (auto simp: HasPrefix_iff)

lemma trim_exposed:
  assumes "scheme = ''http'' \<or> scheme = ''https''" "plain_host h"
  shows "TrimSuffix (scheme @ ''://'' @ h) ''/'' = scheme @ ''://'' @ h"
    and "trim_protocol (scheme @ ''://'' @ h) = h"
    and "TrimSuffix h ''/'' = h"
proof -
  have h: "h \<noteq> ''''" "CHR ''/'' \<notin> set h" using assms(2) plain_host_no_slash by (auto simp: plain_host_def)
  then have last: "last h \<noteq> CHR ''/''" by (metis last_in_set)
  with h show "TrimSuffix (scheme @ ''://'' @ h) ''/'' = scheme @ ''://'' @ h" "TrimSuffix h ''/'' = h"
    by (simp_all add: TrimSuffix_single)
  have "TrimPrefix (''http://'' @ h) ''http://'' = h" "TrimPrefix (''https://'' @ h) ''https://'' = h"
    "TrimPrefix h ''https://'' = h" "TrimPrefix (''https://'' @ h) ''http://'' = ''https://'' @ h"
    using h TrimPrefix_no_slash by (simp_all only: TrimPrefix_append) (simp_all add: TrimPrefix_no_slash)
  with assms(1) show "trim_protocol (scheme @ ''://'' @ h) = h" by (auto simp: trim_protocol_def)
qed

abbreviation plainForm :: string where
  "plainForm \<equiv> ''expose.service-key.config.fabric8.io/''"

abbreviation noProtocolForm :: string where
  "noProtocolForm \<equiv> ''expose-no-protocol.service-key.config.fabric8.io/''"

lemma inject_no_protocol:
  assumes "asks noProtocolForm n key cm"
  shows "fst (injectConfigMap n http cm url) = trim_protocol (TrimSuffix url ''/'')"
  using assms by (simp add: asks_def injectConfigMap_def Let_def inject_url_eq inject_no_path_eq inject_protocol_eq url_after_def)

lemma inject_plain:
  assumes "asks plainForm n key cm" "injectConfigMap n http cm url = (url', data, update)"
  shows "fget data key = TrimSuffix url ''/''" "update \<longleftrightarrow> mget (Data cm) key \<noteq> TrimSuffix url ''/''"
proof -
  have ws: "inject_writes n http cm url = [(key, TrimSuffix url ''/'')]"
    using assms(1) by (simp add: asks_def inject_writes_def Let_def key_writes_def url_after_def Split_fresh
        split: option.splits)
  then have "distinct (map fst (inject_writes n http cm url))" by simp
  from injectConfigMap_data [OF this assms(2)] ws
  show "fget data key = TrimSuffix url ''/''" "update \<longleftrightarrow> mget (Data cm) key \<noteq> TrimSuffix url ''/''" by auto
qed

lemma asks_one_form: "asks noProtocolForm n key1 cm1 \<Longrightarrow> asks plainForm n key2 cm2 \<Longrightarrow> cm1 \<noteq> cm2"
proof
  assume no: "asks noProtocolForm n key1 cm1" and plain: "asks plainForm n key2 cm2" and "cm1 = cm2"
  from no have "annotation cm1 (plainForm @ n) = ''''" by (simp add: asks_def)
  moreover from plain have "annotation cm2 (plainForm @ n) \<noteq> ''''" by (simp add: asks_def)
  ultimately show False using \<open>cm1 = cm2\<close> by simp
qed


section \<open>The other ConfigMaps on a server\<close>

definition uninterested :: "string \<Rightarrow> config_map \<Rightarrow> bool" where
  "uninterested n cm \<longleftrightarrow>
     list_all (\<lambda>form. annotation cm (form @ n) = '''')
       [plainForm, ''expose-full.service-key.config.fabric8.io/'', ''expose-no-path.service-key.config.fabric8.io/'',
        noProtocolForm, ''expose-full-no-protocol.service-key.config.fabric8.io/''] \<and>
     annotation cm ExposeConfigURLProtocol = ''''"

lemma inject_uninterested:
  "uninterested n cm \<Longrightarrow> injectConfigMap n http cm url = (url, mmake (Data cm), False)"
  by (simp add: uninterested_def injectConfigMap_def Let_def inject_url_eq inject_no_path_eq inject_protocol_eq
      url_after_def key_writes_def split: option.splits)

context app_server
begin

lemma configmaps_update_frame:
  assumes "configmaps_update K ns c w = (r, w')"
  shows "view w' = (view w)\<lparr>cmaps := cmaps (view w')\<rparr> \<and> (\<forall>k. k \<noteq> (ns, Name c) \<longrightarrow> cmaps (view w') k = cmaps (view w) k)"
  using assms by (cases r) (auto dest!: update_config_map refused_update_config_map)

lemma otherConfigMaps_loop_frame:
  assumes "otherConfigMaps_loop K ns n http cms url w = (r, w')"
  shows "view w' = (view w)\<lparr>cmaps := cmaps (view w')\<rparr> \<and>
     (\<forall>k. k \<notin> (\<lambda>c. (ns, Name c)) ` {c \<in> set cms. \<not> uninterested n c} \<longrightarrow> cmaps (view w') k = cmaps (view w) k)"
  using assms
proof (induction cms arbitrary: url w)
  case (Cons c cms)
  obtain url' data update where inj: "injectConfigMap n http c url = (url', data, update)"
    by (cases "injectConfigMap n http c url") auto
  show ?case
  proof (cases update)
    case False
    with Cons.prems inj have "otherConfigMaps_loop K ns n http cms url' w = (r, w')" by simp
    from Cons.IH [OF this] show ?thesis by (auto simp: image_iff)
  next
    case True
    then have interested: "\<not> uninterested n c" using inj inject_uninterested by fastforce
    obtain x w1 where u: "configmaps_update K ns (c\<lparr>Data := Some data\<rparr>) w = (x, w1)" by fastforce
    from configmaps_update_frame [OF u] have f1: "view w1 = (view w)\<lparr>cmaps := cmaps (view w1)\<rparr>"
      "\<And>k. k \<noteq> (ns, Name c) \<Longrightarrow> cmaps (view w1) k = cmaps (view w) k" by auto
    have rest: "view w' = (view w1)\<lparr>cmaps := cmaps (view w')\<rparr> \<and>
      (\<forall>k. k \<notin> (\<lambda>c. (ns, Name c)) ` {c \<in> set cms. \<not> uninterested n c} \<longrightarrow> cmaps (view w') k = cmaps (view w1) k)"
    proof (cases x)
      case (Inl e)
      with Cons.prems inj True u have "w' = w1" by simp
      then show ?thesis by simp
    next
      case (Inr y)
      with Cons.prems inj True u have "otherConfigMaps_loop K ns n http cms url' w1 = (r, w')" by simp
      from Cons.IH [OF this] show ?thesis .
    qed
    have "cmaps (view w') k = cmaps (view w) k"
      if "k \<notin> (\<lambda>c. (ns, Name c)) ` {c' \<in> set (c # cms). \<not> uninterested n c'}" for k
    proof -
      from that interested have "k \<noteq> (ns, Name c)" "k \<notin> (\<lambda>c. (ns, Name c)) ` {c \<in> set cms. \<not> uninterested n c}"
        by auto
      with rest f1(2) show ?thesis by metis
    qed
    moreover have "view w' = (view w)\<lparr>cmaps := cmaps (view w')\<rparr>"
    proof -
      have "(view w1)\<lparr>cmaps := m\<rparr> = (view w)\<lparr>cmaps := m\<rparr>" for m by (subst f1(1)) simp
      with rest [THEN conjunct1] show ?thesis by (rule trans)
    qed
    ultimately show ?thesis by blast
  qed
qed simp

end

context app_server
begin

lemma updateOtherConfigMaps_frame:
  assumes "updateOtherConfigMaps K svc config url w = (r, w')"
    and "Namespace svc \<noteq> ''''" "keyed (cmaps (view w))"
  shows "view w' = (view w)\<lparr>cmaps := cmaps (view w')\<rparr> \<and>
     (\<forall>ns n. case cmaps (view w) (ns, n) of
        None \<Rightarrow> cmaps (view w') (ns, n) = None
      | Some c \<Rightarrow> (if ns \<noteq> Namespace svc \<or> uninterested (Name svc) c then cmaps (view w') (ns, n) = Some c else True))"
proof (cases "configmaps_list K (Namespace svc) w")
  case (Inl e)
  with assms(1) show ?thesis by (auto simp: updateOtherConfigMaps_def split: option.splits)
next
  case (Inr cms)
  have l: "\<And>c. c \<in> set cms \<longleftrightarrow> Namespace c = Namespace svc \<and> cmaps (view w) (object_key c) = Some c"
    using list_config_maps [OF Inr assms(2,3)] by (simp add: lists_namespace_def)
  have "otherConfigMaps_loop K (Namespace svc) (Name svc) (HTTPOnly config) cms url w = (r, w')"
    using assms(1) Inr by (simp add: updateOtherConfigMaps_def)
  note f = otherConfigMaps_loop_frame [OF this]
  have same: "cmaps (view w') (ns, n) = cmaps (view w) (ns, n)"
    if "\<And>c. cmaps (view w) (ns, n) = Some c \<Longrightarrow> ns \<noteq> Namespace svc \<or> uninterested (Name svc) c" for ns n
    using that l f [THEN conjunct2, THEN spec, of "(ns, n)"] by (auto simp: object_key_def)
  have "case cmaps (view w) (ns, n) of
        None \<Rightarrow> cmaps (view w') (ns, n) = None
      | Some c \<Rightarrow> (if ns \<noteq> Namespace svc \<or> uninterested (Name svc) c then cmaps (view w') (ns, n) = Some c else True)" for ns n
    using same [of ns n] by (auto split: option.splits)
  with f show ?thesis by blast
qed

end

text \<open>The loop passes over the ConfigMaps that do not ask for the service.\<close>

lemma otherConfigMaps_loop_interested:
  "otherConfigMaps_loop K ns n http cms url w =
   otherConfigMaps_loop K ns n http (filter (\<lambda>c. \<not> uninterested n c) cms) url w"
proof (induction cms arbitrary: url w)
  case (Cons c cms)
  show ?case
  proof (cases "uninterested n c")
    case True
    with Cons.IH show ?thesis by (simp add: inject_uninterested)
  next
    case False
    obtain url' data update where inj: "injectConfigMap n http c url = (url', data, update)"
      by (cases "injectConfigMap n http c url") auto
    obtain r w1 where u: "configmaps_update K ns (c\<lparr>Data := Some data\<rparr>) w = (r, w1)" by fastforce
    from False inj u Cons.IH show ?thesis by (cases r) simp_all
  qed
qed simp

context app_server
begin

text \<open>One round of the loop for a ConfigMap that asks for the plain URL, and a round for any other.\<close>

lemma plain_round:
  assumes "asks plainForm n key cm" "cmaps (view w) (ns, Name cm) = Some cm"
    and "otherConfigMaps_loop K ns n http (cm # cms) url w = (Ok (), w')"
  obtains w1 d where "otherConfigMaps_loop K ns n http cms (fst (injectConfigMap n http cm url)) w1 = (Ok (), w')"
    "cmaps (view w1) = (cmaps (view w))((ns, Name cm) \<mapsto> d)" "mget (Data d) key = TrimSuffix url ''/''"
proof -
  obtain url' data update where inj: "injectConfigMap n http cm url = (url', data, update)"
    by (cases "injectConfigMap n http cm url") auto
  have v: "fget data key = TrimSuffix url ''/''" using inject_plain(1) [OF assms(1) inj] .
  show thesis
  proof (cases update)
    case False
    with inject_plain(2) [OF assms(1) inj] have "mget (Data cm) key = TrimSuffix url ''/''" by simp
    with False inj assms(2,3) show thesis by (intro that [of w cm]) (simp_all add: fun_upd_idem)
  next
    case True
    obtain r w1 where u: "configmaps_update K ns (cm\<lparr>Data := Some data\<rparr>) w = (r, w1)" by fastforce
    with True inj assms(3) obtain d where d: "r = Inr d" by (cases r) auto
    from update_config_map [OF u [unfolded d]] have "accepts_config_map (cm\<lparr>Data := Some data\<rparr>) d"
      "cmaps (view w1) = (cmaps (view w))((ns, Name cm) \<mapsto> d)" by simp_all
    moreover from this(1) have "mget (Data d) key = fget data key"
      by (auto simp: accepts_config_map_def dest: wire_map_eq_mget [of _ _ key])
    ultimately show thesis using True inj u d assms(3) v by (intro that [of w1 d]) simp_all
  qed
qed

lemma other_round:
  assumes "otherConfigMaps_loop K ns n http (cm # cms) url w = (Ok (), w')"
  obtains w1 where "otherConfigMaps_loop K ns n http cms (fst (injectConfigMap n http cm url)) w1 = (Ok (), w')"
    "\<And>k. k \<noteq> (ns, Name cm) \<Longrightarrow> cmaps (view w1) k = cmaps (view w) k"
proof -
  obtain url' data update where inj: "injectConfigMap n http cm url = (url', data, update)"
    by (cases "injectConfigMap n http cm url") auto
  obtain r w1 where u: "configmaps_update K ns (cm\<lparr>Data := Some data\<rparr>) w = (r, w1)" by fastforce
  have frame: "cmaps (view w1) k = cmaps (view w) k" if "k \<noteq> (ns, Name cm)" for k
    using configmaps_update_frame [OF u, THEN conjunct2, rule_format, of k] that by simp
  show thesis
  proof (cases update)
    case True
    with assms inj u have "otherConfigMaps_loop K ns n http cms url' w1 = (Ok (), w')" by (cases r) simp_all
    with inj show thesis by (intro that [OF _ frame]) simp_all
  qed (use assms inj in \<open>intro that [of w], simp_all\<close>)
qed

lemma exposeURL_order:
  assumes "asks noProtocolForm n key1 cm1" "asks plainForm n key2 cm2" "Name cm1 \<noteq> Name cm2"
    and "cmaps (view w) (ns, Name cm2) = Some cm2"
    and "scheme = ''http'' \<or> scheme = ''https''" "plain_host h" "url = scheme @ ''://'' @ h"
  shows "otherConfigMaps_loop K ns n http [cm1, cm2] url w = (Ok (), w') \<Longrightarrow>
      \<exists>d. cmaps (view w') (ns, Name cm2) = Some d \<and> mget (Data d) key2 = h"
    and "otherConfigMaps_loop K ns n http [cm2, cm1] url w = (Ok (), w') \<Longrightarrow>
      \<exists>d. cmaps (view w') (ns, Name cm2) = Some d \<and> mget (Data d) key2 = url"
proof -
  note trim = trim_exposed [OF assms(5,6)] inject_no_protocol [OF assms(1)]
  show "\<exists>d. cmaps (view w') (ns, Name cm2) = Some d \<and> mget (Data d) key2 = h"
    if "otherConfigMaps_loop K ns n http [cm1, cm2] url w = (Ok (), w')"
  proof -
    from other_round [OF that] obtain w1 where
      w1: "otherConfigMaps_loop K ns n http [cm2] (fst (injectConfigMap n http cm1 url)) w1 = (Ok (), w')"
      "cmaps (view w1) (ns, Name cm2) = Some cm2" using assms(3,4) by (metis prod.inject)
    from plain_round [OF assms(2) w1(2,1)] obtain w2 d where "otherConfigMaps_loop K ns n http []
        (fst (injectConfigMap n http cm2 (fst (injectConfigMap n http cm1 url)))) w2 = (Ok (), w')"
      "cmaps (view w2) (ns, Name cm2) = Some d" "mget (Data d) key2 = TrimSuffix (fst (injectConfigMap n http cm1 url)) ''/''"
      by (metis fun_upd_same)
    with trim assms(7) show ?thesis by simp
  qed
  show "\<exists>d. cmaps (view w') (ns, Name cm2) = Some d \<and> mget (Data d) key2 = url"
    if "otherConfigMaps_loop K ns n http [cm2, cm1] url w = (Ok (), w')"
  proof -
    from plain_round [OF assms(2,4) that] obtain w1 d where
      w1: "otherConfigMaps_loop K ns n http [cm1] (fst (injectConfigMap n http cm2 url)) w1 = (Ok (), w')"
      "cmaps (view w1) (ns, Name cm2) = Some d" "mget (Data d) key2 = TrimSuffix url ''/''" by (metis fun_upd_same)
    from other_round [OF w1(1)] obtain w2 where "otherConfigMaps_loop K ns n http []
        (fst (injectConfigMap n http cm1 (fst (injectConfigMap n http cm2 url)))) w2 = (Ok (), w')"
      "cmaps (view w2) (ns, Name cm2) = Some d" using w1(2) assms(3) by (metis prod.inject)
    with w1(3) trim(1) assms(7) show ?thesis by auto
  qed
qed

end

text \<open>
  C18: \<^verbatim>\<open>updateOtherConfigMaps\<close> touches ConfigMaps only, only those of the service's namespace that
  have one of its annotations, and creates none, whether it succeeds or stops with an error.
\<close>

theorem updateOtherConfigMaps_safe:
  assumes "app_server K L view OC"
    and "updateOtherConfigMaps K svc config url w = (r, w')"
    and "Namespace svc \<noteq> ''''" "keyed (cmaps (view w))"
  shows "view w' = (view w)\<lparr>cmaps := cmaps (view w')\<rparr> \<and>
     (\<forall>ns n. case cmaps (view w) (ns, n) of
        None \<Rightarrow> cmaps (view w') (ns, n) = None
      | Some c \<Rightarrow> (if ns \<noteq> Namespace svc \<or> uninterested (Name svc) c then cmaps (view w') (ns, n) = Some c else True))"
  using assms(2-) by (rule app_server.updateOtherConfigMaps_frame [OF assms(1)])

definition configmap_state :: ref_state where
  "configmap_state = \<lparr>ref_services = [], ref_ingresses = [],
     ref_configmaps = [((''dev'', ''web''), empty_config_map),
       ((''dev'', ''keys''), two_key_map\<lparr>Name := ''keys''\<rparr>)],
     ref_deployments = [], ref_routes = [], ref_oauthclients = [], ref_nodes = [], ref_paths = []\<rparr>"

theorem updateOtherConfigMaps_safe_witness:
  "cmaps (ref_view (snd (updateOtherConfigMaps ref_client example_service DefaultConfig ''https://web.io/'' configmap_state)))
     (''dev'', ''web'') = Some empty_config_map"
proof -
  obtain r w' where w': "updateOtherConfigMaps ref_client example_service DefaultConfig ''https://web.io/'' configmap_state = (r, w')"
    by fastforce
  have "keyed (cmaps (ref_view configmap_state))"
    by (auto simp: keyed_def ref_view_def configmap_state_def empty_config_map_def two_key_map_def split: if_splits)
  moreover have "Namespace example_service \<noteq> ''''" by (simp add: example_service_def)
  moreover have "uninterested n empty_config_map" for n by (simp add: uninterested_def empty_config_map_def)
  moreover have "cmaps (ref_view configmap_state) (''dev'', ''web'') = Some empty_config_map"
    by (simp add: ref_view_def configmap_state_def)
  ultimately have "cmaps (ref_view w') (''dev'', ''web'') = Some empty_config_map"
    using updateOtherConfigMaps_safe [OF ref.app_server_axioms w', THEN conjunct2, THEN spec, of "''dev''",
        THEN spec, of "''web''"] by simp
  with w' show ?thesis by simp
qed


definition asking_map :: "string \<Rightarrow> string \<Rightarrow> config_map" where
  "asking_map name form = empty_config_map\<lparr>Name := name, Data := Some fmempty,
     Annotations := Some (fmupd (form @ ''web'') ''k'' fmempty)\<rparr>"

definition asking_state :: ref_state where
  "asking_state = configmap_state\<lparr>ref_configmaps :=
     [((''dev'', ''a''), asking_map ''a'' noProtocolForm), ((''dev'', ''b''), asking_map ''b'' plainForm)]\<rparr>"

lemma ref_update_config_map:
  "map_of (ref_configmaps w) (ns, Name c) \<noteq> None \<Longrightarrow>
   \<exists>d. configmaps_update ref_client ns c w = (Inr d, w\<lparr>ref_configmaps := AList.update (ns, Name c) d (ref_configmaps w)\<rparr>)"
  by (auto simp: ref_client_def)

lemma ref_loop_Ok:
  "\<forall>c \<in> set cms. map_of (ref_configmaps w) (ns, Name c) \<noteq> None \<Longrightarrow>
   fst (otherConfigMaps_loop ref_client ns n http cms url w) = Ok ()"
proof (induction cms arbitrary: url w)
  case (Cons c cms)
  obtain url' data update where inj: "injectConfigMap n http c url = (url', data, update)"
    by (cases "injectConfigMap n http c url") auto
  from ref_update_config_map [of w ns "c\<lparr>Data := Some data\<rparr>"] Cons.prems obtain d where
    d: "configmaps_update ref_client ns (c\<lparr>Data := Some data\<rparr>) w =
      (Inr d, w\<lparr>ref_configmaps := AList.update (ns, Name c) d (ref_configmaps w)\<rparr>)" by auto
  from Cons.prems show ?case by (simp add: inj d Cons.IH update_conv')
qed simp


end
