(* ===== verification/Controller.thy ===== *)
theory Controller
  imports Strategy ConfigMaps
begin

text \<open>
  \<^verbatim>\<open>controller/controller.go\<close> less its ConfigMap part: how the controller is made, the OAuth client
  of a service, and the handlers the informer calls for services that appear, change and vanish.
\<close>

section \<open>Detection\<close>

definition isServiceWhitelisted :: "string \<Rightarrow> config \<Rightarrow> bool" where
  "isServiceWhitelisted service config \<longleftrightarrow> Services config = [] \<or> service \<in> set (Services config)"

definition findApiServerFromNode :: "('w, 'b) client \<Rightarrow> 'w \<Rightarrow> string" where
  "findApiServerFromNode K w =
     (case nodes_list K None w of
        (_, Some e) \<Rightarrow> ''''
      | ([node], None) \<Rightarrow>
          (let h0 = annotation node ''kubernetes.io/hostname'';
               h1 = (if h0 = '''' then ExternalID node else h0);
               host = (if h1 = '''' then Name node else h1)
           in if host \<noteq> '''' then host @ '':'' @ ''8443'' else '''')
      | (_, None) \<Rightarrow> '''')"

fun serviceProtocol_loop :: "bool \<Rightarrow> service_port list \<Rightarrow> string" where
  "serviceProtocol_loop hasHttp [] = (if hasHttp then ''http'' else ''https'')"
| "serviceProtocol_loop hasHttp (port # ports) =
     (if PortName port = ''https'' \<or> Port port = 443 then ''https''
      else serviceProtocol_loop (hasHttp \<or> PortName port = ''http'' \<or> Port port = 80) ports)"

definition kubernetesServiceProtocol :: "('w, 'b) client \<Rightarrow> 'w \<Rightarrow> string" where
  "kubernetesServiceProtocol K w =
     (case services_get K ''default'' ''kubernetes'' w of
        Inl e \<Rightarrow> ''https''
      | Inr svc \<Rightarrow> serviceProtocol_loop False (Ports svc))"

text \<open>
  What the process finds outside the cluster: an HTTP response or an error, the JSON decoder for its
  body, the environment variables, and whether \<^verbatim>\<open>oclient.New\<close> makes a client (its error is
  dropped, and then the client is nil).
\<close>

record oauth_server =
  Issuer :: string
  AuthorizationEndpoint :: string
  TokenEndpoint :: string

record host_env =
  http_Get :: "string \<Rightarrow> goerror + string"
  decode_oauth_server :: "string \<Rightarrow> goerror + oauth_server"
  Getenv :: "string \<Rightarrow> string"
  oclient_made :: bool

definition findOAuthAuthorizeURL :: "host_env \<Rightarrow> string" where
  "findOAuthAuthorizeURL H =
     (case http_Get H ''https://openshift.default.svc/.well-known/oauth-authorization-server'' of
        Inl e \<Rightarrow> ''''
      | Inr body \<Rightarrow>
          (case decode_oauth_server H body of
             Inl e \<Rightarrow> ''''
           | Inr target \<Rightarrow> AuthorizationEndpoint target))"


section \<open>NewController\<close>

text \<open>The authorize URL made from the address of the API server, which is not empty.\<close>

definition apiServer_authorizeURL :: "string \<Rightarrow> string \<Rightarrow> string" where
  "apiServer_authorizeURL authorizePath server =
     (let url = (if \<not> HasPrefix server ''http:'' \<and> \<not> HasPrefix server ''https:'' then ''https://'' @ server else server);
          p0 = (if authorizePath = '''' then ''/oauth/authorize'' else authorizePath);
          authPath = (if HasPrefix p0 ''/'' then p0 else ''/'' @ p0)
      in TrimSuffix url ''/'' @ authPath)"

text \<open>The authorize URL on OpenShift, and the configuration, whose API server may be filled in.\<close>

abbreviation OAuthAuthorizeUrlEnvVar :: string where
  "OAuthAuthorizeUrlEnvVar \<equiv> ''OAUTH_AUTHORIZE_URL''"

definition authorizeURL_setup :: "('w, 'b) client \<Rightarrow> host_env \<Rightarrow> config \<Rightarrow> 'w \<Rightarrow> string \<times> config" where
  "authorizeURL_setup K H config w =
     (let u0 = findOAuthAuthorizeURL H;
          u1 = (if u0 = '''' then Getenv H OAuthAuthorizeUrlEnvVar else u0)
      in if u1 \<noteq> '''' then (u1, config)
         else let config' = (if ApiServer config = '''' then config\<lparr>ApiServer := findApiServerFromNode K w\<rparr> else config);
                  server = ApiServer config'
              in (if server \<noteq> '''' then apiServer_authorizeURL (AuthorizePath config') server else '''', config'))"

definition new_args_of :: "config \<Rightarrow> new_args" where
  "new_args_of config =
     \<lparr>na_internalDomain = InternalDomain config, na_urltemplate = UrlTemplate config, na_nodeIP = NodeIP config,
      na_routeHost = RouteHostName config, na_pathMode = PathMode config, na_routeUsePath = RouteUsePath config,
      na_http = HTTPOnly config, na_tlsAcme = TLSAcme config, na_tlsSecretName = TLSSecretName config,
      na_tlsUseWildcard = TLSUseWildcard config, na_ingressClass = IngressClass config\<rparr>"

text \<open>
  What the handlers close over: the configuration as \<^verbatim>\<open>NewController\<close> left it, whether there is an
  OpenShift client, and the authorize URL. The strategy is returned beside it, since calls change it.
\<close>

record controller =
  ct_config :: config
  ct_has_oc :: bool
  ct_authorizeURL :: string

definition NewController ::
  "('w, 'b) client \<Rightarrow> 'b golib \<Rightarrow> host_env \<Rightarrow> config \<Rightarrow> 'w \<Rightarrow> (controller \<times> strategy) outcome" where
  "NewController K L H config w =
     (case New K L (Exposer config) (Domain config) (new_args_of config) w of
        Err e \<Rightarrow> Err (WithMessage ''failed to create new strategy'' e)
      | Panic p \<Rightarrow> Panic p
      | Ok strategy \<Rightarrow>
          (let (authorizeURL, config1) = (if isOpenShift K L w then authorizeURL_setup K H config w else ('''', config));
               config2 = (if ApiServerProtocol config1 = ''''
                          then config1\<lparr>ApiServerProtocol := kubernetesServiceProtocol K w\<rparr> else config1)
           in Ok (\<lparr>ct_config = config2, ct_has_oc = (isOpenShift K L w \<and> oclient_made H),
                   ct_authorizeURL = authorizeURL\<rparr>, strategy)))"


section \<open>The OAuth client of a service\<close>

definition updateServiceOAuthClient :: "'w oclient \<Rightarrow> service \<Rightarrow> 'w \<Rightarrow> 'w" where
  "updateServiceOAuthClient OC svc w =
     (let exposeURL = annotation svc ExposeAnnotationKey
      in if exposeURL = '''' then w
         else case oauthclients_get OC (Name svc) w of
                Inl e \<Rightarrow> w
              | Inr oauthClient \<Rightarrow>
                  if exposeURL \<in> set (RedirectURIs oauthClient) then w
                  else case oauthclients_delete OC (Name svc) w of
                         (Some e, w1) \<Rightarrow> w1
                       | (None, w1) \<Rightarrow>
                           snd (oauthclients_create OC (oauthClient\<lparr>RedirectURIs := RedirectURIs oauthClient @ [exposeURL],
                             ResourceVersion := ''''\<rparr>) w1))"

text \<open>A panic of the first call ends the handler; errors are dropped.\<close>

definition updateRelatedResources ::
  "('w, 'b) client \<Rightarrow> 'w oclient option \<Rightarrow> 'b golib \<Rightarrow> yaml_lib \<Rightarrow> service \<Rightarrow> config \<Rightarrow> string \<Rightarrow> 'w \<Rightarrow>
   unit outcome \<times> 'w" where
  "updateRelatedResources K oc L Y svc config authorizeURL w =
     (case updateServiceConfigMap K oc L Y svc config authorizeURL w of
        (Panic p, w1) \<Rightarrow> (Panic p, w1)
      | (_, w1) \<Rightarrow>
          (let w2 = (case oc of None \<Rightarrow> w1 | Some OC \<Rightarrow> updateServiceOAuthClient OC svc w1);
               exposeURL = annotation svc ExposeAnnotationKey
           in if exposeURL = '''' then (Ok (), w2)
              else case updateOtherConfigMaps K svc config exposeURL w2 of
                     (Panic p, w3) \<Rightarrow> (Panic p, w3)
                   | (_, w3) \<Rightarrow> (Ok (), w3)))"


section \<open>The handlers\<close>

definition exposed_by_mark :: "service \<Rightarrow> bool" where
  "exposed_by_mark svc \<longleftrightarrow> label svc (LabelKey ExposeLabel) = LabelValue ExposeLabel \<or> annotation svc (LabelKey ExposeAnnotation) = LabelValue ExposeAnnotation"

definition injected :: "service \<Rightarrow> bool" where
  "injected svc \<longleftrightarrow> annotation svc (LabelKey InjectAnnotation) = LabelValue InjectAnnotation"

text \<open>
  A handler returns how it ended, the service object as it left it (the informer's store holds the
  same object), the strategy and the server state. \<open>OC\<close> is the client of the route strategy.
\<close>

type_synonym 'w handler_result = "unit outcome \<times> service \<times> strategy \<times> 'w"

definition controller_oc :: "controller \<Rightarrow> 'w oclient \<Rightarrow> 'w oclient option" where
  "controller_oc C OC = (if ct_has_oc C then Some OC else None)"

text \<open>The body shared by \<^verbatim>\<open>AddFunc\<close> and the first branch of \<^verbatim>\<open>UpdateFunc\<close>.\<close>

definition expose_service ::
  "('w, 'b) client \<Rightarrow> 'w oclient \<Rightarrow> 'b golib \<Rightarrow> yaml_lib \<Rightarrow> controller \<Rightarrow> service \<Rightarrow> strategy \<Rightarrow> 'w \<Rightarrow> 'w handler_result" where
  "expose_service K OC L Y C svc st w =
     (if \<not> isServiceWhitelisted (Name svc) (ct_config C) then (Ok (), svc, st, w)
      else case strategy_Add K OC L st svc w of
             (Panic p, svc', st', w') \<Rightarrow> (Panic p, svc', st', w')
           | (_, svc', st', w') \<Rightarrow>
               (case updateRelatedResources K (controller_oc C OC) L Y svc' (ct_config C) (ct_authorizeURL C) w' of
                  (r, w'') \<Rightarrow> (r, svc', st', w'')))"

text \<open>\<^verbatim>\<open>strategy.Remove\<close> with its error logged.\<close>

definition hide_service ::
  "('w, 'b) client \<Rightarrow> 'w oclient \<Rightarrow> 'b golib \<Rightarrow> controller \<Rightarrow> service \<Rightarrow> strategy \<Rightarrow> 'w \<Rightarrow> 'w handler_result" where
  "hide_service K OC L C svc st w =
     (if \<not> isServiceWhitelisted (Name svc) (ct_config C) then (Ok (), svc, st, w)
      else case strategy_Remove K OC L st svc w of
             (Panic p, svc', st', w') \<Rightarrow> (Panic p, svc', st', w')
           | (_, svc', st', w') \<Rightarrow> (Ok (), svc', st', w'))"

definition AddFunc ::
  "('w, 'b) client \<Rightarrow> 'w oclient \<Rightarrow> 'b golib \<Rightarrow> yaml_lib \<Rightarrow> controller \<Rightarrow> service \<Rightarrow> strategy \<Rightarrow> 'w \<Rightarrow> 'w handler_result" where
  "AddFunc K OC L Y C svc st w =
     (if exposed_by_mark svc \<or> injected svc then expose_service K OC L Y C svc st w else (Ok (), svc, st, w))"

definition UpdateFunc ::
  "('w, 'b) client \<Rightarrow> 'w oclient \<Rightarrow> 'b golib \<Rightarrow> yaml_lib \<Rightarrow> controller \<Rightarrow> service \<Rightarrow> service \<Rightarrow> strategy \<Rightarrow> 'w \<Rightarrow>
   'w handler_result" where
  "UpdateFunc K OC L Y C oldSvc svc st w =
     (if exposed_by_mark svc \<or> injected svc then expose_service K OC L Y C svc st w
      else if exposed_by_mark oldSvc \<or> injected svc then hide_service K OC L C svc st w
      else (Ok (), svc, st, w))"

text \<open>What \<^verbatim>\<open>DeleteFunc\<close> is given: the last state of the service, or a marker with its key.\<close>

datatype deleted = DeletedObject service | DeletedFinalStateUnknown string "service option"

definition bare_service :: "string \<Rightarrow> string \<Rightarrow> service" where
  "bare_service ns name =
     object_meta.extend (empty_meta ns name)
       \<lparr>ServiceType = '''', Ports = [], ClusterIP = '''', ExternalIPs = [], LoadBalancerIP = ''''\<rparr>"

definition DeleteFunc ::
  "('w, 'b) client \<Rightarrow> 'w oclient \<Rightarrow> 'b golib \<Rightarrow> controller \<Rightarrow> deleted \<Rightarrow> strategy \<Rightarrow> 'w \<Rightarrow>
   unit outcome \<times> strategy \<times> 'w" where
  "DeleteFunc K OC L C obj st w =
     (case obj of
        DeletedObject svc \<Rightarrow> (Ok (), st, w)
      | DeletedFinalStateUnknown key _ \<Rightarrow>
          (case Split key CHR ''/'' of
             ns # name # _ \<Rightarrow> (case hide_service K OC L C (bare_service ns name) st w of (r, _, st', w') \<Rightarrow> (r, st', w'))
           | _ \<Rightarrow> (Panic ''index out of range'', st, w)))"

end
