(* ===== verification/Confinement.thy ===== *)
theory Confinement
  imports Controller
begin

text \<open>
  How far the handling of one service reaches. Whatever a handler does for a service, and however it
  ends, it changes no other service, no object of another namespace, and no OAuth client of another
  name.
\<close>

section \<open>Confined changes\<close>

definition confined :: "string \<Rightarrow> string \<Rightarrow> cluster \<Rightarrow> cluster \<Rightarrow> bool" where
  "confined ns n C C' \<longleftrightarrow>
     (\<forall>k. k \<noteq> (ns, n) \<longrightarrow> svcs C' k = svcs C k) \<and>
     (\<forall>k. fst k \<noteq> ns \<longrightarrow> ings C' k = ings C k \<and> cmaps C' k = cmaps C k \<and> deps C' k = deps C k \<and> rts C' k = rts C k) \<and>
     (\<forall>m. m \<noteq> n \<longrightarrow> oauths C' m = oauths C m)"

text \<open>ConfigMaps, routes and OAuth clients are stored under the namespace and the name they carry.\<close>

definition tidy :: "cluster \<Rightarrow> bool" where
  "tidy C \<longleftrightarrow> keyed (cmaps C) \<and> keyed (rts C) \<and> (\<forall>n c. oauths C n = Some c \<longrightarrow> Name c = n)"

text \<open>The form that is preserved along a sequence of requests.\<close>

definition within :: "('w \<Rightarrow> cluster) \<Rightarrow> string \<Rightarrow> string \<Rightarrow> 'w \<Rightarrow> 'w \<Rightarrow> bool" where
  "within view ns n w w' \<longleftrightarrow> (tidy (view w) \<longrightarrow> confined ns n (view w) (view w') \<and> tidy (view w'))"

lemma confined_refl [simp]: "confined ns n C C"
  by (simp add: confined_def)

lemma confined_trans: "confined ns n C C' \<Longrightarrow> confined ns n C' C'' \<Longrightarrow> confined ns n C C''"
  by (simp add: confined_def)

lemma within_refl [simp]: "within view ns n w w"
  by (simp add: within_def)

lemma within_trans [trans]: "within view ns n w w1 \<Longrightarrow> within view ns n w1 w2 \<Longrightarrow> within view ns n w w2"
  by (auto simp: within_def intro: confined_trans)

lemma within_same: "view w' = view w \<Longrightarrow> within view ns n w w'"
  by (simp add: within_def)

lemma keyed_upd: "keyed m \<Longrightarrow> (\<And>x. v = Some x \<Longrightarrow> Namespace x = ns \<and> Name x = n) \<Longrightarrow> keyed (m((ns, n) := v))"
  by (auto simp: keyed_def)

lemma within_updates:
  "view w' = (view w)\<lparr>svcs := (svcs (view w))((ns, n) := s)\<rparr> \<Longrightarrow> within view ns n w w'"
  "view w' = (view w)\<lparr>ings := (ings (view w))((ns, m) := i)\<rparr> \<Longrightarrow> within view ns n w w'"
  "view w' = (view w)\<lparr>deps := (deps (view w))((ns, m) := d)\<rparr> \<Longrightarrow> within view ns n w w'"
  by (auto simp: within_def confined_def tidy_def)

lemma within_keyed_updates:
  "view w' = (view w)\<lparr>cmaps := (cmaps (view w))((ns, m) := c)\<rparr> \<Longrightarrow>
     (\<And>x. c = Some x \<Longrightarrow> Namespace x = ns \<and> Name x = m) \<Longrightarrow> within view ns n w w'"
  "view w' = (view w)\<lparr>rts := (rts (view w))((ns, m) := r)\<rparr> \<Longrightarrow>
     (\<And>x. r = Some x \<Longrightarrow> Namespace x = ns \<and> Name x = m) \<Longrightarrow> within view ns n w w'"
  "view w' = (view w)\<lparr>oauths := (oauths (view w))(n := o')\<rparr> \<Longrightarrow>
     (\<And>x. o' = Some x \<Longrightarrow> Name x = n) \<Longrightarrow> within view ns n w w'"
  by (auto simp: within_def confined_def tidy_def intro: keyed_upd)

text \<open>Steps that only hold in a tidy state.\<close>

lemma withinI: "(tidy (view w) \<Longrightarrow> within view ns n w w') \<Longrightarrow> within view ns n w w'"
  by (simp add: within_def)


section \<open>Every request is confined\<close>

context app_server
begin

lemma within_patchService [confinement]: "within view (Namespace svc) (Name svc) w (snd (patchService K L msg svc clone w))"
  using patchService_frame [of msg svc clone w]
  by (cases "patchService K L msg svc clone w") (auto intro: within_updates(1))

lemma within_services_update [confinement]: "within view ns (Name s) w (snd (services_update K ns s w))"
  by (cases "services_update K ns s w"; cases "fst (services_update K ns s w)")
    (auto dest!: update_service refused_update_service intro: within_same within_updates(1))

lemma within_ingress_create [confinement]: "within view ns n w (snd (ingress_create K ns i w))"
  by (cases "ingress_create K ns i w"; cases "fst (ingress_create K ns i w)")
    (auto dest!: create_ingress refused_create_ingress intro: within_same within_updates(2))

lemma within_ingress_update [confinement]: "within view ns n w (snd (ingress_update K ns i w))"
  by (cases "ingress_update K ns i w"; cases "fst (ingress_update K ns i w)")
    (auto dest!: update_ingress refused_update_ingress intro: within_same within_updates(2))

lemma within_ingress_delete [confinement]: "within view ns n w (snd (ingress_delete K ns m w))"
  by (cases "ingress_delete K ns m w"; cases "fst (ingress_delete K ns m w)")
    (auto dest!: delete_ingress refused_delete_ingress intro: within_same within_updates(2))

lemma within_routes_delete [confinement]: "within view ns n w (snd (routes_delete OC ns m w))"
  by (cases "routes_delete OC ns m w"; cases "fst (routes_delete OC ns m w)")
    (auto dest!: delete_route refused_delete_route intro: within_same within_keyed_updates(2))

lemma within_routes_create [confinement]: "Namespace r = ns \<Longrightarrow> within view ns n w (snd (routes_create OC ns r w))"
  by (cases "routes_create OC ns r w"; cases "fst (routes_create OC ns r w)")
    (auto dest!: create_route refused_create_route simp: accepts_route_def same_meta_def
      intro: within_same within_keyed_updates(2))

lemma within_routes_update [confinement]: "Namespace r = ns \<Longrightarrow> within view ns n w (snd (routes_update OC ns r w))"
  by (cases "routes_update OC ns r w"; cases "fst (routes_update OC ns r w)")
    (auto dest!: update_route refused_update_route simp: accepts_route_def same_meta_def
      intro: within_same within_keyed_updates(2))

lemma within_configmaps_update [confinement]: "Namespace c = ns \<Longrightarrow> within view ns n w (snd (configmaps_update K ns c w))"
  by (cases "configmaps_update K ns c w"; cases "fst (configmaps_update K ns c w)")
    (auto dest!: update_config_map refused_update_config_map simp: accepts_config_map_def same_meta_def
      intro: within_same within_keyed_updates(1))

lemma within_deployments_update [confinement]: "within view ns n w (snd (deployments_update K ns d w))"
  by (cases "deployments_update K ns d w"; cases "fst (deployments_update K ns d w)")
    (auto dest!: update_deployment refused_update_deployment intro: within_same within_updates(3))

lemma within_oauthclients_delete [confinement]: "within view ns n w (snd (oauthclients_delete OC n w))"
  by (cases "oauthclients_delete OC n w"; cases "fst (oauthclients_delete OC n w)")
    (auto dest!: delete_oauthclient refused_delete_oauthclient intro: within_same within_keyed_updates(3))

lemma within_oauthclients_create [confinement]: "within view ns (Name c) w (snd (oauthclients_create OC c w))"
  by (cases "oauthclients_create OC c w"; cases "fst (oauthclients_create OC c w)")
    (auto dest!: create_oauthclient refused_create_oauthclient simp: same_meta_def intro: within_same within_keyed_updates(3))

end


section \<open>Every call of a strategy is confined\<close>

context app_server
begin

lemma within_patchRemove [confinement]: "within view (Namespace svc) (Name svc) w (snd (patchRemove K L svc w))"
  by (simp add: patchRemove_def within_patchService)

lemma within_Ingress_apply [confinement]:
  assumes "create \<Longrightarrow> Namespace i = Namespace svc"
  shows "within view (Namespace svc) (Name svc) w (snd (Ingress_apply K L s svc create i w))"
proof (cases "ingress_plan s svc (ingress_target_of L s svc) i")
  case (Ok p)
  show ?thesis
  proof (cases p)
    case (Some i')
    with Ok have plan: "ingress_plan s svc (ingress_target_of L s svc) i = Ok (Some i')" by simp
    let ?wr = "if create then ingress_create K (Namespace i') i' w else ingress_update K (Namespace svc) i' w"
    have wr: "within view (Namespace svc) (Name svc) w (snd ?wr)"
      using assms ingress_plan_names [OF plan] by (simp add: within_ingress_create within_ingress_update)
    obtain r w1 where w1: "?wr = (r, w1)" by (cases ?wr)
    show ?thesis
    proof (cases r)
      case (Inr j)
      have "within view (Namespace svc) (Name svc) w1
          (snd (patchService K L ''failed to send patch'' svc (Ingress_clone L s svc) w1))"
        by (rule within_patchService)
      with within_trans [OF wr] w1 Inr plan show ?thesis by (simp add: Ingress_apply_def)
    qed (use wr w1 plan in \<open>simp add: Ingress_apply_def\<close>)
  qed (use Ok in \<open>simp add: Ingress_apply_def\<close>)
qed (simp_all add: Ingress_apply_def)

lemma within_Ingress_Add [confinement]: "within view (Namespace svc) (Name svc) w (snd (Ingress_Add K L s svc w))"
  using within_Ingress_apply [where create = True and i = "new_ingress svc"] within_Ingress_apply [where create = False]
  by (auto simp: Ingress_Add_def new_ingress_def split: sum.splits api_error.splits)

lemma within_Ingress_Remove [confinement]: "within view (Namespace svc) (Name svc) w (snd (Ingress_Remove K L s svc w))"
proof -
  obtain r w1 where w1: "ingress_delete K (Namespace svc) (releaseName svc) w = (r, w1)" by fastforce
  then have "within view (Namespace svc) (Name svc) w w1"
    using within_ingress_delete [of "Namespace svc" "Name svc" w "releaseName svc"] by simp
  from this within_trans [OF this within_patchRemove] w1 show ?thesis
    by (auto simp: Ingress_Remove_def split: option.splits api_error.splits)
qed

lemma within_createRoute [confinement]:
  "Namespace r = ns \<Longrightarrow> within view ns n w (snd (createRoute OC r w))"
  using within_routes_create [of r ns n w]
  by (cases "routes_create OC ns r w") (auto simp: createRoute_def split: sum.splits)

lemma within_Route_sync [confinement]: "within view (Namespace svc) n w (snd (Route_sync OC s svc w))"
proof (cases "routes_get OC (Namespace svc) (Name svc) w")
  case (Inl e)
  then show ?thesis by (cases e) (simp_all add: Route_sync_def within_createRoute)
next
  case (Inr r0)
  show ?thesis
  proof (rule withinI)
    assume "tidy (view w)"
    with get_route [OF Inr] have ns: "Namespace r0 = Namespace svc" by (auto simp: tidy_def keyed_def)
    obtain d w1 where d: "routes_delete OC (Namespace svc) (Name r0) w = (d, w1)" by fastforce
    with within_routes_delete have del: "within view (Namespace svc) n w w1" by (metis snd_conv)
    have create: "within view (Namespace svc) n w1 (snd (createRoute OC (moved_route s svc (labelled_route r0)) w1))"
      by (simp add: within_createRoute ns)
    obtain u w2 where u: "routes_update OC (Namespace svc) (labelled_route r0) w = (u, w2)" by fastforce
    with within_routes_update [of "labelled_route r0"] ns have upd: "within view (Namespace svc) n w w2"
      by (metis snd_conv route_simps(10))
    show "within view (Namespace svc) n w (snd (Route_sync OC s svc w))"
      using Inr d del within_trans [OF del create] u upd
      by (auto simp: Route_sync_def Let_def ns split: option.splits sum.splits)
  qed
qed

lemma within_Route_annotate [confinement]: "within view (Namespace svc) (Name svc) w (snd (Route_annotate K L svc r w))"
  by (simp add: Route_annotate_def within_patchService split: prod.splits)

lemma within_Route_Add [confinement]: "within view (Namespace svc) (Name svc) w (snd (Route_Add K OC L s svc w))"
proof -
  obtain r w1 where w1: "Route_sync OC s svc w = (r, w1)" by fastforce
  with within_Route_sync have "within view (Namespace svc) (Name svc) w w1" by (metis snd_conv)
  from this within_trans [OF this within_Route_annotate] w1 show ?thesis
    by (cases r) (auto simp: Route_Add_def)
qed

lemma within_Route_Remove [confinement]: "within view (Namespace svc) (Name svc) w (snd (Route_Remove K OC L s svc w))"
proof -
  obtain r w1 where w1: "routes_delete OC (Namespace svc) (Name svc) w = (r, w1)" by fastforce
  with within_routes_delete have "within view (Namespace svc) (Name svc) w w1" by (metis snd_conv)
  from this within_trans [OF this within_patchRemove] w1 show ?thesis
    by (auto simp: Route_Remove_def split: option.splits api_error.splits)
qed

lemma within_Ambassador_Add [confinement]:
  "within view (Namespace svc) (Name svc) w (snd (snd (snd (Ambassador_Add K L s svc w))))"
proof -
  have "within view (Namespace svc) (Name svc) w w'"
    if "services_update K (Namespace svc) (svc\<lparr>Annotations := a\<rparr>) w = (r, w')" for a r w'
    using within_services_update [of "Namespace svc" "svc\<lparr>Annotations := a\<rparr>" w] that by simp
  then show ?thesis
    by (auto simp: Ambassador_Add_def Let_def split: prod.splits outcome.splits option.splits sum.splits)
qed

lemma within_Ambassador_Remove [confinement]:
  "within view (Namespace svc) (Name svc) w (snd (snd (snd (Ambassador_Remove K s svc w))))"
  using within_services_update [of "Namespace svc" "svc\<lparr>Annotations := mdelete (Annotations svc) ambassadorKey\<rparr>" w]
  by (auto simp: Ambassador_Remove_def Let_def split: prod.splits sum.splits)

lemma within_strategy_Add [confinement]:
  "within view (Namespace svc) (Name svc) w (snd (snd (snd (strategy_Add K OC L st svc w))))"
  by (cases st)
    (auto simp: strategy_Add_world LoadBalancer_Add_def NodePort_Add_def Let_def confinement split: list.splits)

lemma within_strategy_Remove [confinement]:
  "within view (Namespace svc) (Name svc) w (snd (snd (snd (strategy_Remove K OC L st svc w))))"
  by (cases st)
    (auto simp: strategy_Remove_world LoadBalancer_Remove_def NodePort_Remove_def confinement)

end

section \<open>Every handler is confined\<close>

lemma apply_setting_frame:
  "apply_setting s (cm, u) = Ok (cm', u') \<Longrightarrow> cm' = cm\<lparr>Data := Data cm'\<rparr>"
  by (cases s) (auto simp: putData_def split: if_splits option.splits)

lemma apply_settings_frame:
  "apply_settings ss (cm, u) = Ok (cm', u') \<Longrightarrow> cm' = cm\<lparr>Data := Data cm'\<rparr>"
proof (induction ss arbitrary: cm u)
  case (Cons s ss)
  then obtain c1 u1 where "apply_setting s (cm, u) = Ok (c1, u1)" "apply_settings ss (c1, u1) = Ok (cm', u')"
    by (auto simp: outcome_bind_eq_Ok)
  with Cons.IH [of c1 u1] apply_setting_frame [of s cm u c1 u1] show ?case
    by (metis (no_types, lifting) config_map.surjective config_map.update_convs(1))
qed simp

lemma UpdateConfigMap_all_frame:
  "UpdateConfigMap_all cs values (cm, u) = (cm', u') \<Longrightarrow> Namespace cm' = Namespace cm \<and> Name cm' = Name cm"
proof (induction cs arbitrary: cm u)
  case (Cons c cs)
  obtain c1 u1 where c1: "UpdateConfigMap c cm values = (c1, u1)" by fastforce
  then have "Namespace c1 = Namespace cm" "Name c1 = Name cm"
    by (auto simp: UpdateConfigMap_def Let_def split: if_splits)
  with c1 Cons show ?case by auto
qed simp

lemma serviceConfigMap_plan_frame:
  assumes "serviceConfigMap_plan Y openshift has_oc config authorizeURL svc cm = Ok (cm', u)"
  shows "Namespace cm' = Namespace cm \<and> Name cm' = Name cm"
proof -
  obtain c1 u1 where c1: "apply_settings (server_settings openshift has_oc config authorizeURL cm @
      cluster_settings svc cm @ url_settings svc cm) (cm, False) = Ok (c1, u1)"
    using assms by (auto simp: serviceConfigMap_plan_def outcome_bind_eq_Ok)
  from apply_settings_frame [OF this] obtain d where "c1 = cm\<lparr>Data := d\<rparr>" by blast
  then have "Namespace c1 = Namespace cm" "Name c1 = Name cm" by simp_all
  with assms c1 show ?thesis
    by (auto simp: serviceConfigMap_plan_def Let_def dest: UpdateConfigMap_all_frame split: if_splits sum.splits)
qed

context app_server
begin

lemma within_rollingUpgrade_loop [confinement]: "within view ns n w (snd (rollingUpgrade_loop K ns name v ds w))"
proof (induction ds arbitrary: w)
  case (Cons d ds)
  obtain r w1 where w1: "deployments_update K ns (upgraded v d) w = (r, w1)" by fastforce
  with within_deployments_update have "within view ns n w w1" by (metis snd_conv)
  from this within_trans [OF this Cons.IH] w1 Cons.IH show ?case by (cases r) simp_all
qed simp

lemma within_rollingUpgradeDeployments [confinement]:
  "Namespace cm = ns \<Longrightarrow> within view ns n w (snd (rollingUpgradeDeployments K L cm w))"
  by (auto simp: rollingUpgradeDeployments_def within_rollingUpgrade_loop split: sum.splits)

lemma within_updateServiceConfigMap [confinement]:
  "within view (Namespace svc) n w (snd (updateServiceConfigMap K oc L Y svc config authorizeURL w))"
proof (rule withinI, cases "configmaps_get K (Namespace svc) (Name svc) w")
  case (Inr cm)
  assume "tidy (view w)"
  with get_config_map [OF Inr] have ns: "Namespace cm = Namespace svc" by (auto simp: tidy_def keyed_def)
  let ?plan = "serviceConfigMap_plan Y (isOpenShift K L w) (oc \<noteq> None) config authorizeURL svc cm"
  show "within view (Namespace svc) n w (snd (updateServiceConfigMap K oc L Y svc config authorizeURL w))"
  proof (cases ?plan)
    case (Ok cu)
    obtain cm' u where cu: "cu = (cm', u)" by fastforce
    with Ok serviceConfigMap_plan_frame ns have ns': "Namespace cm' = Namespace svc" by metis
    obtain r w1 where w1: "configmaps_update K (Namespace svc) cm' w = (r, w1)" by fastforce
    with within_configmaps_update [OF ns'] have "within view (Namespace svc) n w w1" by (metis snd_conv)
    from within_trans [OF this within_rollingUpgradeDeployments [OF ns']] Ok cu Inr w1 show ?thesis
      by (cases "rollingUpgradeDeployments K L cm' w1") (simp add: updateServiceConfigMap_def)
  qed (use Inr in \<open>simp_all add: updateServiceConfigMap_def\<close>)
qed (simp add: updateServiceConfigMap_def)

lemma within_updateServiceOAuthClient [confinement]: "within view ns (Name svc) w (updateServiceOAuthClient OC svc w)"
proof (rule withinI)
  assume tidy: "tidy (view w)"
  have "within view ns (Name svc) w (snd (oauthclients_create OC (c\<lparr>RedirectURIs := uris, ResourceVersion := ''''\<rparr>) w1))"
    if c: "oauthclients_get OC (Name svc) w = Inr c" and w1: "oauthclients_delete OC (Name svc) w = (r, w1)" for c uris r w1
  proof -
    have "Name c = Name svc" using get_oauthclient [OF c] tidy by (auto simp: tidy_def)
    then have "within view ns (Name svc) w1 (snd (oauthclients_create OC (c\<lparr>RedirectURIs := uris, ResourceVersion := ''''\<rparr>) w1))"
      using within_oauthclients_create [of ns "c\<lparr>RedirectURIs := uris, ResourceVersion := ''''\<rparr>" w1] by simp
    moreover have "within view ns (Name svc) w w1" using within_oauthclients_delete w1 by (metis snd_conv)
    ultimately show ?thesis by (rule within_trans [rotated])
  qed
  moreover have "within view ns (Name svc) w w1" if "oauthclients_delete OC (Name svc) w = (r, w1)" for r w1
    using within_oauthclients_delete that by (metis snd_conv)
  ultimately show "within view ns (Name svc) w (updateServiceOAuthClient OC svc w)"
    by (auto simp: updateServiceOAuthClient_def Let_def split: sum.splits prod.splits option.splits)
qed

lemma within_otherConfigMaps_loop [confinement]:
  "list_all (\<lambda>c. Namespace c = ns) cms \<Longrightarrow> within view ns n w (snd (otherConfigMaps_loop K ns name http cms url w))"
proof (induction cms arbitrary: url w)
  case (Cons c cms)
  obtain url' data update where inj: "injectConfigMap name http c url = (url', data, update)"
    by (cases "injectConfigMap name http c url") auto
  obtain r w1 where w1: "configmaps_update K ns (c\<lparr>Data := Some data\<rparr>) w = (r, w1)" by fastforce
  have "within view ns n w w1"
    using within_configmaps_update [of "c\<lparr>Data := Some data\<rparr>" ns n w] w1 Cons.prems by simp
  from this within_trans [OF this Cons.IH] Cons inj w1 show ?case by (cases r) simp_all
qed simp

lemma within_updateOtherConfigMaps [confinement]:
  assumes "Namespace svc \<noteq> ''''"
  shows "within view (Namespace svc) n w (snd (updateOtherConfigMaps K svc config url w))"
proof (rule withinI, cases "configmaps_list K (Namespace svc) w")
  case (Inr cms)
  assume "tidy (view w)"
  with list_config_maps [OF Inr assms] have "list_all (\<lambda>c. Namespace c = Namespace svc) cms"
    by (auto simp: tidy_def lists_namespace_def list_all_iff)
  with Inr within_otherConfigMaps_loop show
    "within view (Namespace svc) n w (snd (updateOtherConfigMaps K svc config url w))"
    by (simp add: updateOtherConfigMaps_def)
qed (simp add: updateOtherConfigMaps_def)

end

lemma strategy_Add_service:
  "strategy_Add K OC L st svc w = (r, svc', st', w') \<Longrightarrow> Namespace svc' = Namespace svc \<and> Name svc' = Name svc"
  by (cases st) (auto simp: strategy_Add_def Ambassador_Add_def Let_def
      split: prod.splits outcome.splits option.splits sum.splits)

lemma strategy_Remove_service:
  "strategy_Remove K OC L st svc w = (r, svc', st', w') \<Longrightarrow> Namespace svc' = Namespace svc \<and> Name svc' = Name svc"
  by (cases st) (auto simp: strategy_Remove_def Ambassador_Remove_def Let_def split: prod.splits sum.splits)

context app_server
begin

lemma within_updateRelatedResources [confinement]:
  assumes "Namespace svc \<noteq> ''''" "oc = None \<or> oc = Some OC"
  shows "within view (Namespace svc) (Name svc) w (snd (updateRelatedResources K oc L Y svc config authorizeURL w))"
proof -
  obtain r w1 where w1: "updateServiceConfigMap K oc L Y svc config authorizeURL w = (r, w1)" by fastforce
  with within_updateServiceConfigMap have a: "within view (Namespace svc) (Name svc) w w1" by (metis snd_conv)
  define w2 where "w2 = (case oc of None \<Rightarrow> w1 | Some OC \<Rightarrow> updateServiceOAuthClient OC svc w1)"
  have "within view (Namespace svc) (Name svc) w1 w2"
    using assms(2) by (auto simp: w2_def within_updateServiceOAuthClient)
  with a have b: "within view (Namespace svc) (Name svc) w w2" by (rule within_trans)
  obtain r3 w3 where w3: "updateOtherConfigMaps K svc config (annotation svc ExposeAnnotationKey) w2 = (r3, w3)" by fastforce
  with within_updateOtherConfigMaps [OF assms(1)] have "within view (Namespace svc) (Name svc) w2 w3" by (metis snd_conv)
  with b have "within view (Namespace svc) (Name svc) w w3" by (rule within_trans)
  with a b w1 w3 w2_def [symmetric] show ?thesis
    by (auto simp: updateRelatedResources_def Let_def split: outcome.splits)
qed

lemma within_expose_service:
  assumes "Namespace svc \<noteq> ''''" "expose_service K OC L Y C svc st w = (r, svc', st', w')"
  shows "within view (Namespace svc) (Name svc) w w' \<and> object_key svc' = object_key svc \<and>
    (w' = w \<or> isServiceWhitelisted (Name svc) (ct_config C))"
proof (cases "isServiceWhitelisted (Name svc) (ct_config C)")
  case True
  obtain r1 svc1 st1 w1 where add: "strategy_Add K OC L st svc w = (r1, svc1, st1, w1)"
    by (cases "strategy_Add K OC L st svc w") auto
  with within_strategy_Add have a: "within view (Namespace svc) (Name svc) w w1" by (metis snd_conv)
  note names = strategy_Add_service [OF add]
  obtain r2 w2 where w2: "updateRelatedResources K (controller_oc C OC) L Y svc1 (ct_config C) (ct_authorizeURL C) w1 = (r2, w2)"
    by fastforce
  have "controller_oc C OC = None \<or> controller_oc C OC = Some OC" by (simp add: controller_oc_def)
  with within_updateRelatedResources [of svc1] names assms(1) w2 have "within view (Namespace svc) (Name svc) w1 w2"
    by (metis snd_conv)
  with a have "within view (Namespace svc) (Name svc) w w2" by (rule within_trans)
  with a add w2 names True assms(2) show ?thesis
    by (cases r1) (auto simp: expose_service_def object_key_def)
qed (use assms(2) in \<open>simp add: expose_service_def\<close>)

lemma within_hide_service:
  assumes "hide_service K OC L C svc st w = (r, svc', st', w')"
  shows "within view (Namespace svc) (Name svc) w w' \<and> object_key svc' = object_key svc \<and>
    (w' = w \<or> isServiceWhitelisted (Name svc) (ct_config C))"
proof (cases "isServiceWhitelisted (Name svc) (ct_config C)")
  case True
  obtain r1 svc1 st1 w1 where rm: "strategy_Remove K OC L st svc w = (r1, svc1, st1, w1)"
    by (cases "strategy_Remove K OC L st svc w") auto
  with within_strategy_Remove have "within view (Namespace svc) (Name svc) w w1" by (metis snd_conv)
  with rm strategy_Remove_service [OF rm] True assms show ?thesis
    by (cases r1) (auto simp: hide_service_def object_key_def)
qed (use assms in \<open>simp add: hide_service_def\<close>)

lemma within_AddFunc:
  assumes "Namespace svc \<noteq> ''''" "AddFunc K OC L Y C svc st w = (r, svc', st', w')"
  shows "within view (Namespace svc) (Name svc) w w' \<and> object_key svc' = object_key svc \<and>
    (w' = w \<or> isServiceWhitelisted (Name svc) (ct_config C))"
  using within_expose_service [OF assms(1)] assms(2) by (auto simp: AddFunc_def split: if_splits)

lemma within_UpdateFunc:
  assumes "Namespace svc \<noteq> ''''" "UpdateFunc K OC L Y C old svc st w = (r, svc', st', w')"
  shows "within view (Namespace svc) (Name svc) w w' \<and> object_key svc' = object_key svc \<and>
    (w' = w \<or> isServiceWhitelisted (Name svc) (ct_config C))"
  using within_expose_service [OF assms(1)] within_hide_service assms(2)
  by (fastforce simp: UpdateFunc_def split: if_splits)

lemma within_DeleteFunc:
  assumes "DeleteFunc K OC L C (DeletedFinalStateUnknown (ns @ ''/'' @ n) x) st w = (r, st', w')"
    and "CHR ''/'' \<notin> set ns" "CHR ''/'' \<notin> set n"
  shows "within view ns n w w' \<and> (w' = w \<or> isServiceWhitelisted n (ct_config C))"
proof -
  have "Split (ns @ ''/'' @ n) CHR ''/'' = [ns, n]"
    using assms(2,3) by (simp add: Split_append_sep Split_fresh)
  with assms(1) obtain svc' where "hide_service K OC L C (bare_service ns n) st w = (r, svc', st', w')"
    by (auto simp: DeleteFunc_def split: prod.splits)
  from within_hide_service [OF this] show ?thesis
    by (simp add: bare_service_def empty_meta_def object_meta.defs)
qed

end

section \<open>Injection leaves services, ingresses and routes alone\<close>

definition same_exposure :: "cluster \<Rightarrow> cluster \<Rightarrow> bool" where
  "same_exposure V V' \<longleftrightarrow> svcs V' = svcs V \<and> ings V' = ings V \<and> rts V' = rts V"

lemma same_exposure_refl [simp]: "same_exposure V V"
  by (simp add: same_exposure_def)

lemma same_exposure_trans: "same_exposure V V1 \<Longrightarrow> same_exposure V1 V2 \<Longrightarrow> same_exposure V V2"
  by (simp add: same_exposure_def)

lemma same_exposure_updates:
  "V' = V\<lparr>cmaps := c\<rparr> \<Longrightarrow> same_exposure V V'" "V' = V\<lparr>deps := d\<rparr> \<Longrightarrow> same_exposure V V'"
  "V' = V\<lparr>oauths := a\<rparr> \<Longrightarrow> same_exposure V V'" "V' = V \<Longrightarrow> same_exposure V V'"
  by (simp_all add: same_exposure_def)

context app_server
begin

lemma configmaps_update_same: "configmaps_update K ns c w = (r, w') \<Longrightarrow> same_exposure (view w) (view w')"
  by (cases r) (auto dest!: update_config_map refused_update_config_map intro: same_exposure_updates)

lemma deployments_update_same: "deployments_update K ns d w = (r, w') \<Longrightarrow> same_exposure (view w) (view w')"
  by (cases r) (auto dest!: update_deployment refused_update_deployment intro: same_exposure_updates)

lemma oauthclients_create_same: "oauthclients_create OC c w = (r, w') \<Longrightarrow> same_exposure (view w) (view w')"
  by (cases r) (auto dest!: create_oauthclient refused_create_oauthclient intro: same_exposure_updates)

lemma oauthclients_delete_same: "oauthclients_delete OC n w = (r, w') \<Longrightarrow> same_exposure (view w) (view w')"
  by (cases r) (auto dest!: delete_oauthclient refused_delete_oauthclient intro: same_exposure_updates)

lemmas write_same = configmaps_update_same deployments_update_same oauthclients_create_same oauthclients_delete_same

lemma rollingUpgrade_loop_same: "same_exposure (view w) (view (snd (rollingUpgrade_loop K ns name v ds w)))"
proof (induction ds arbitrary: w)
  case (Cons d ds)
  obtain r w1 where w1: "deployments_update K ns (upgraded v d) w = (r, w1)" by fastforce
  with Cons.IH same_exposure_trans [OF write_same(2) [OF w1] Cons.IH] write_same(2) [OF w1] show ?case
    by (cases r) simp_all
qed simp

lemma otherConfigMaps_loop_same: "same_exposure (view w) (view (snd (otherConfigMaps_loop K ns n http cms url w)))"
proof (induction cms arbitrary: url w)
  case (Cons c cms)
  obtain url' data update where inj: "injectConfigMap n http c url = (url', data, update)"
    by (cases "injectConfigMap n http c url") auto
  obtain r w1 where w1: "configmaps_update K ns (c\<lparr>Data := Some data\<rparr>) w = (r, w1)" by fastforce
  with Cons.IH same_exposure_trans [OF write_same(1) [OF w1] Cons.IH] write_same(1) [OF w1] inj show ?case
    by (cases r) simp_all
qed simp

lemma updateServiceConfigMap_same: "same_exposure (view w) (view (snd (updateServiceConfigMap K oc L Y svc config url w)))"
proof -
  have "same_exposure (view w) (view w2)"
    if "configmaps_update K ns cm w = (r, w1)" "rollingUpgradeDeployments K L cm w1 = (r', w2)" for ns cm r w1 r' w2
  proof -
    have "same_exposure (view w1) (view w2)"
      using that(2) rollingUpgrade_loop_same
      by (auto simp: rollingUpgradeDeployments_def split: sum.splits) (metis snd_conv)
    with write_same(1) [OF that(1)] show ?thesis by (rule same_exposure_trans)
  qed
  then show ?thesis by (auto simp: updateServiceConfigMap_def split: sum.splits outcome.splits prod.splits)
qed

lemma updateServiceOAuthClient_same: "same_exposure (view w) (view (updateServiceOAuthClient OC svc w))"
proof -
  have "same_exposure (view w) (view (snd (oauthclients_create OC c w1)))" if "oauthclients_delete OC n w = (r, w1)" for c n r w1
    using same_exposure_trans [OF write_same(4) [OF that] write_same(3)] by (metis prod.collapse)
  then show ?thesis
    by (auto simp: updateServiceOAuthClient_def Let_def split: sum.splits prod.splits option.splits intro: write_same(4))
qed

lemma updateRelatedResources_same:
  assumes "oc = None \<or> oc = Some OC"
  shows "same_exposure (view w) (view (snd (updateRelatedResources K oc L Y svc config url w)))"
proof -
  obtain r w1 where w1: "updateServiceConfigMap K oc L Y svc config url w = (r, w1)" by fastforce
  with updateServiceConfigMap_same have a: "same_exposure (view w) (view w1)" by (metis snd_conv)
  define w2 where "w2 = (case oc of None \<Rightarrow> w1 | Some OC \<Rightarrow> updateServiceOAuthClient OC svc w1)"
  have "same_exposure (view w1) (view w2)" using assms by (auto simp: w2_def updateServiceOAuthClient_same)
  with a have b: "same_exposure (view w) (view w2)" by (rule same_exposure_trans)
  have "same_exposure (view w2) (view (snd (updateOtherConfigMaps K svc config url2 w2)))" for url2
    by (auto simp: updateOtherConfigMaps_def otherConfigMaps_loop_same split: sum.splits)
  note c = same_exposure_trans [OF b this]
  from a b c [of "annotation svc ExposeAnnotationKey"] w1 w2_def [symmetric] show ?thesis
    by (auto simp: updateRelatedResources_def Let_def split: outcome.splits prod.splits)
qed

end

end
