(* ===== verification/Handlers.thy ===== *)
theory Handlers
  imports Confinement
begin

text \<open>
  What the handlers of the controller achieve: which calls an event leads to, what becomes of the
  OAuth client, what a new controller starts with, and that handling a service settles.
\<close>

section \<open>Which call an event leads to\<close>

text \<open>
  \<^verbatim>\<open>UpdateFunc\<close> treats a service that is marked now like a new one, removes one that was marked by
  the label or the annotation before, and does nothing otherwise. The test for the inject
  annotation in its second branch looks at the new object, which cannot have it there, so a service
  that was handled because of that annotation is not removed when it loses it.
\<close>

theorem UpdateFunc_cases:
  "UpdateFunc K OC L Y C oldSvc svc st w =
     (if exposed_by_mark svc \<or> injected svc then AddFunc K OC L Y C svc st w
      else if exposed_by_mark oldSvc then hide_service K OC L C svc st w
      else (Ok (), svc, st, w))"
  by (simp add: UpdateFunc_def AddFunc_def)

lemma removeServiceAnnotation_bare [simp]: "removeServiceAnnotation (bare_service ns n) = bare_service ns n"
  by (simp add: removeServiceAnnotation_def bare_service_def empty_meta_def object_meta.defs)

lemma bare_service_names [simp]:
  "Namespace (bare_service ns n) = ns" "Name (bare_service ns n) = n" "Labels (bare_service ns n) = None"
  "Annotations (bare_service ns n) = None"
  by (simp_all add: bare_service_def empty_meta_def object_meta.defs)

lemma patchService_same_world: "snd (patchService K L msg svc svc w) = w"
  by (auto simp: patchService_def createPatch_def split: sum.splits if_splits)

lemma releaseName_bare [simp]: "releaseName (bare_service ns n) = n"
  by (simp add: releaseName_def)

lemma Split_key: "CHR ''/'' \<notin> set ns \<Longrightarrow> CHR ''/'' \<notin> set n \<Longrightarrow> Split (ns @ ''/'' @ n) CHR ''/'' = [ns, n]"
  by (simp add: Split_append_sep Split_fresh)

text \<open>
  C32: deletion. The informer passes the deleted service itself when it saw the deletion, and then
  \<^verbatim>\<open>DeleteFunc\<close> does nothing: the ingress of the service stays. Only when the deletion was missed and
  a marker with the key is passed is the ingress of that name deleted (and, the object being gone, no
  patch sent).
\<close>

theorem DeleteFunc_ingress:
  assumes "kube_server K L view"
    and "isServiceWhitelisted n (ct_config C)" "CHR ''/'' \<notin> set ns" "CHR ''/'' \<notin> set n"
    and "ingress_delete K ns n w = (None, w1)"
  shows "DeleteFunc K OC L C (DeletedObject svc) (IngressStrategy s) w = (Ok (), IngressStrategy s, w) \<and>
    snd (DeleteFunc K OC L C (DeletedFinalStateUnknown (ns @ ''/'' @ n) x) (IngressStrategy s) w) = (IngressStrategy s, w1) \<and>
    view w1 = (view w)\<lparr>ings := (ings (view w))((ns, n) := None)\<rparr>"
proof -
  have rm: "snd (Ingress_Remove K L s (bare_service ns n) w) = w1"
    using assms(5) by (simp add: Ingress_Remove_def patchRemove_def patchService_same_world)
  obtain r where "Ingress_Remove K L s (bare_service ns n) w = (r, w1)"
    using rm by (cases "Ingress_Remove K L s (bare_service ns n) w") simp
  then have "snd (DeleteFunc K OC L C (DeletedFinalStateUnknown (ns @ ''/'' @ n) x) (IngressStrategy s) w) = (IngressStrategy s, w1)"
    using assms(2) by (cases r) (simp_all add: DeleteFunc_def hide_service_def strategy_Remove_def Split_key [OF assms(3,4)]
        del: append_Cons)
  with kube_server.delete_ingress [OF assms(1,5)] show ?thesis by (simp add: DeleteFunc_def)
qed

section \<open>The OAuth client\<close>

context openshift_server
begin

lemma updateServiceOAuthClient_cases:
  assumes "oauthclients_get OC (Name svc) w = Inr c" "Name c = Name svc"
    and url: "annotation svc ExposeAnnotationKey = url" "url \<noteq> ''''" "url \<notin> set (RedirectURIs c)"
  shows "\<exists>x. view (updateServiceOAuthClient OC svc w) = (view w)\<lparr>oauths := (oauths (view w))(Name svc := x)\<rparr> \<and>
    (case oauthclients_delete OC (Name svc) w of
       (Some _, _) \<Rightarrow> x = Some c
     | (None, w1) \<Rightarrow>
         (case oauthclients_create OC (c\<lparr>RedirectURIs := RedirectURIs c @ [url], ResourceVersion := ''''\<rparr>) w1 of
            (Inl _, _) \<Rightarrow> x = None
          | (Inr d, _) \<Rightarrow> x = Some d \<and> RedirectURIs d = RedirectURIs c @ [url]))"
proof -
  let ?c = "c\<lparr>RedirectURIs := RedirectURIs c @ [url], ResourceVersion := ''''\<rparr>"
  have stored: "oauths (view w) (Name svc) = Some c" using get_oauthclient [OF assms(1)] .
  obtain e w1 where del: "oauthclients_delete OC (Name svc) w = (e, w1)" by fastforce
  obtain r w2 where cr: "oauthclients_create OC ?c w1 = (r, w2)" by fastforce
  have run: "updateServiceOAuthClient OC svc w = (if e = None then w2 else w1)"
    using assms del cr by (auto simp: updateServiceOAuthClient_def Let_def split: option.splits)
  show ?thesis
  proof (cases e)
    case (Some a)
    with del run refused_delete_oauthclient have "view (updateServiceOAuthClient OC svc w) = view w" by simp
    with stored Some del show ?thesis by (intro exI [of _ "Some c"]) (simp add: fun_upd_idem)
  next
    case None
    with del delete_oauthclient have v1: "view w1 = (view w)\<lparr>oauths := (oauths (view w))(Name svc := None)\<rparr>" by simp
    show ?thesis
    proof (cases r)
      case (Inl a)
      with cr refused_create_oauthclient have "view w2 = view w1" by blast
      with v1 run None Inl del cr show ?thesis by (intro exI [of _ None]) simp
    next
      case (Inr d)
      with create_oauthclient [of ?c w1 d w2] cr have "RedirectURIs d = RedirectURIs c @ [url]"
        "view w2 = (view w1)\<lparr>oauths := (oauths (view w1))(Name svc \<mapsto> d)\<rparr>" using assms(2) by auto
      with v1 run None Inr del cr show ?thesis by (intro exI [of _ "Some d"]) simp
    qed
  qed
qed

end

text \<open>
  C20: the OAuth client of an exposed service whose URL it does not know is deleted and created again.
  When both requests succeed it has its old redirect URIs followed by the URL; when the second is
  refused it is lost; nothing but that client changes, and a client that knows the URL is left alone.
\<close>

theorem updateServiceOAuthClient_effect:
  assumes "openshift_server K L view OC"
    and "oauthclients_get OC (Name svc) w = Inr c" "Name c = Name svc"
    and "annotation svc ExposeAnnotationKey = url" "url \<noteq> ''''"
  shows "if url \<in> set (RedirectURIs c) then updateServiceOAuthClient OC svc w = w
    else \<exists>x. view (updateServiceOAuthClient OC svc w) = (view w)\<lparr>oauths := (oauths (view w))(Name svc := x)\<rparr> \<and>
      (case oauthclients_delete OC (Name svc) w of
         (Some _, _) \<Rightarrow> x = Some c
       | (None, w1) \<Rightarrow>
           (case oauthclients_create OC (c\<lparr>RedirectURIs := RedirectURIs c @ [url], ResourceVersion := ''''\<rparr>) w1 of
              (Inl _, _) \<Rightarrow> x = None
            | (Inr d, _) \<Rightarrow> x = Some d \<and> RedirectURIs d = RedirectURIs c @ [url]))"
  using openshift_server.updateServiceOAuthClient_cases [OF assms(1-5)] assms(2,4,5)
  by (auto simp: updateServiceOAuthClient_def)

definition oauth_state :: ref_state where
  "oauth_state = lb_state\<lparr>ref_oauthclients := [(''web'', object_meta.extend (empty_meta '''' ''web'') \<lparr>RedirectURIs = [''http://old'']\<rparr>)]\<rparr>"

definition url_service :: service where
  "url_service = lb_service\<lparr>Annotations := Some (fmupd ExposeAnnotationKey ''http://new'' fmempty)\<rparr>"

theorem updateServiceOAuthClient_effect_witness:
  "\<exists>d. oauths (ref_view (updateServiceOAuthClient ref_oclient url_service oauth_state)) ''web'' = Some d \<and>
     RedirectURIs d = [''http://old'', ''http://new'']"
proof -
  let ?c = "object_meta.extend (empty_meta '''' ''web'') \<lparr>RedirectURIs = [''http://old'']\<rparr>"
  have c: "oauthclients_get ref_oclient (Name url_service) oauth_state = Inr ?c" "Name ?c = Name url_service"
    by (simp_all add: ref_oclient_def ref_get_def oauth_state_def url_service_def lb_service_def example_service_def
        empty_meta_def object_meta.defs)
  have url: "annotation url_service ExposeAnnotationKey = ''http://new''" by (simp add: url_service_def)
  have n: "Name url_service = ''web''" by (simp add: url_service_def lb_service_def example_service_def)
  have "RedirectURIs ?c = [''http://old'']" "Name ?c = ''web''" by (simp_all add: empty_meta_def object_meta.defs)
  with updateServiceOAuthClient_effect [OF ref.openshift_server_axioms c url] show ?thesis
    by (auto simp: n ref_oclient_def oauth_state_def split: option.splits)
qed

definition marker_controller :: controller where
  "marker_controller = \<lparr>ct_config = DefaultConfig, ct_has_oc = False, ct_authorizeURL = ''''\<rparr>"

theorem DeleteFunc_ingress_witness:
  "ings (ref_view (snd (snd (DeleteFunc ref_client ref_oclient ref_lib marker_controller
     (DeletedFinalStateUnknown ''dev/web'' None) (IngressStrategy example_ingress_strategy) listed_state)))) (''dev'', ''web'') = None \<and>
   ings (ref_view (snd (snd (DeleteFunc ref_client ref_oclient ref_lib marker_controller
     (DeletedObject example_service) (IngressStrategy example_ingress_strategy) listed_state)))) (''dev'', ''web'') \<noteq> None"
proof -
  obtain i where i: "ref_ingresses listed_state = [((''dev'', ''web''), i)]" by (simp add: listed_state_def)
  let ?w1 = "listed_state\<lparr>ref_ingresses := []\<rparr>"
  have d: "ingress_delete ref_client ''dev'' ''web'' listed_state = (None, ?w1)"
    using i by (simp add: ref_client_def)
  have w: "isServiceWhitelisted ''web'' (ct_config marker_controller)"
    by (simp add: isServiceWhitelisted_def marker_controller_def DefaultConfig_def)
  have "CHR ''/'' \<notin> set ''dev''" "CHR ''/'' \<notin> set ''web''" by simp_all
  from DeleteFunc_ingress [OF ref.kube_server_axioms w this d, of ref_oclient example_service example_ingress_strategy None]
  show ?thesis using i by (simp add: ref_view_def)
qed

section \<open>A new controller\<close>

lemma serviceProtocol_loop_values: "serviceProtocol_loop h ps \<in> {''http'', ''https''}"
  by (induction h ps rule: serviceProtocol_loop.induct) auto

lemma kubernetesServiceProtocol_values: "kubernetesServiceProtocol K w \<in> {''http'', ''https''}"
  using serviceProtocol_loop_values by (auto simp: kubernetesServiceProtocol_def split: sum.splits)

text \<open>The protocol is http only for a service with an http port and no https port.\<close>

lemma serviceProtocol_loop_http:
  "serviceProtocol_loop h ps = ''http'' \<longleftrightarrow>
     (\<forall>p \<in> set ps. \<not> (PortName p = ''https'' \<or> Port p = 443)) \<and> (h \<or> (\<exists>p \<in> set ps. PortName p = ''http'' \<or> Port p = 80))"
  by (induction h ps rule: serviceProtocol_loop.induct) auto

lemma HasPrefix_TrimSuffix:
  assumes "HasPrefix s p" "p \<noteq> ''''" "last p \<noteq> c"
  shows "HasPrefix (TrimSuffix s [c] @ t) p"
proof -
  from assms(1) obtain r where r: "s = p @ r" by (auto simp: HasPrefix_iff)
  show ?thesis using assms(2,3) by (cases r rule: rev_cases) (auto simp: r TrimSuffix_single HasPrefix_iff butlast_append)
qed

text \<open>The authorize URL made from an API server is absolute and ends in the path.\<close>

lemma apiServer_authorizeURL_shape:
  "(HasPrefix (apiServer_authorizeURL p server) ''http:'' \<or> HasPrefix (apiServer_authorizeURL p server) ''https:'') \<and>
   HasSuffix (apiServer_authorizeURL p server) (if p = '''' then ''/oauth/authorize'' else p)"
proof -
  let ?url = "if \<not> HasPrefix server ''http:'' \<and> \<not> HasPrefix server ''https:'' then ''https://'' @ server else server"
  have "HasPrefix ?url ''http:'' \<or> HasPrefix ?url ''https:''" by simp
  moreover have "HasPrefix (TrimSuffix u ''/'' @ t) ''http:'' \<or> HasPrefix (TrimSuffix u ''/'' @ t) ''https:''"
    if "HasPrefix u ''http:'' \<or> HasPrefix u ''https:''" for u t
    using that HasPrefix_TrimSuffix [of u _ "CHR ''/''" t] by (elim disjE) simp_all
  ultimately have pre: "HasPrefix (TrimSuffix ?url ''/'' @ t) ''http:'' \<or> HasPrefix (TrimSuffix ?url ''/'' @ t) ''https:''" for t
    by blast
  have suf: "HasSuffix (t @ (if HasPrefix q ''/'' then q else ''/'' @ q)) q" for t q
    by (auto simp: HasSuffix_iff)
  show ?thesis unfolding apiServer_authorizeURL_def Let_def by (rule conjI) (rule pre, rule suf)
qed

lemma apiServer_authorizeURL_not_Nil [simp]: "apiServer_authorizeURL p server \<noteq> ''''"
  using apiServer_authorizeURL_shape [of p server] by auto

text \<open>Where an authorize URL comes from, given the address of the API server.\<close>

definition authorizeURL_from :: "host_env \<Rightarrow> string \<Rightarrow> string \<Rightarrow> bool" where
  "authorizeURL_from H server url \<longleftrightarrow>
     (if findOAuthAuthorizeURL H \<noteq> '''' then url = findOAuthAuthorizeURL H
      else if Getenv H OAuthAuthorizeUrlEnvVar \<noteq> '''' then url = Getenv H OAuthAuthorizeUrlEnvVar
      else if server \<noteq> '''' then HasPrefix url ''http:'' \<or> HasPrefix url ''https:''
      else url = '''')"

lemma authorizeURL_setup_cases:
  assumes "authorizeURL_setup K H config w = (url, config')"
  shows "config' = config\<lparr>ApiServer := ApiServer config'\<rparr> \<and> ApiServer config \<in> {'''', ApiServer config'} \<and>
    authorizeURL_from H (ApiServer config') url"
proof -
  have "config\<lparr>ApiServer := ApiServer config\<rparr> = config" by simp
  with assms show ?thesis
    using apiServer_authorizeURL_shape [THEN conjunct1, of "AuthorizePath config" "findApiServerFromNode K w"]
      apiServer_authorizeURL_shape [THEN conjunct1, of "AuthorizePath config" "ApiServer config"]
    by (auto simp: authorizeURL_setup_def authorizeURL_from_def Let_def split: if_splits)
qed

text \<open>
  C15: what a new controller starts with. Its strategy fits the configured name and the cluster; the
  configuration differs from the given one in the API server, which is only ever filled in, and in
  its protocol, which is not empty afterwards. Without OpenShift there is no OAuth; on OpenShift the
  authorize URL is the published one, else that of the environment variable, else an absolute URL
  made from the API server, and empty only when there is none of these.
\<close>

theorem NewController_effect:
  assumes "NewController K L H config w = Ok (C, st)"
  shows "strategy_fits K L w (Exposer config) st \<and>
    ct_config C = config\<lparr>ApiServer := ApiServer (ct_config C), ApiServerProtocol := ApiServerProtocol (ct_config C)\<rparr> \<and>
    ApiServer config \<in> {'''', ApiServer (ct_config C)} \<and>
    ApiServerProtocol (ct_config C) =
      (if ApiServerProtocol config = '''' then kubernetesServiceProtocol K w else ApiServerProtocol config) \<and>
    ApiServerProtocol (ct_config C) \<noteq> '''' \<and>
    (if isOpenShift K L w then authorizeURL_from H (ApiServer (ct_config C)) (ct_authorizeURL C)
     else ct_authorizeURL C = '''' \<and> \<not> ct_has_oc C \<and> ApiServer (ct_config C) = ApiServer config)"
proof -
  obtain url config1 where su: "(if isOpenShift K L w then authorizeURL_setup K H config w else ('''', config)) = (url, config1)"
    by fastforce
  have new: "New K L (Exposer config) (Domain config) (new_args_of config) w = Ok st"
    and C: "ct_config C = (if ApiServerProtocol config1 = '''' then config1\<lparr>ApiServerProtocol := kubernetesServiceProtocol K w\<rparr>
        else config1)" "ct_authorizeURL C = url" "ct_has_oc C = (isOpenShift K L w \<and> oclient_made H)"
    using assms su by (auto simp: NewController_def split: outcome.splits)
  have fits: "strategy_fits K L w (Exposer config) st" using new by (rule New_Ok_fits)
  have "config1 = config\<lparr>ApiServer := ApiServer config1\<rparr> \<and> ApiServer config \<in> {'''', ApiServer config1}"
    using su authorizeURL_setup_cases [of K H config w url config1] by (cases "isOpenShift K L w") auto
  then obtain a where config1: "config1 = config\<lparr>ApiServer := a\<rparr>" "ApiServer config \<in> {'''', a}" by auto
  have "kubernetesServiceProtocol K w \<noteq> ''''" using kubernetesServiceProtocol_values [of K w] by auto
  with C(1) config1 have cfg: "ct_config C = config\<lparr>ApiServer := ApiServer (ct_config C), ApiServerProtocol := ApiServerProtocol (ct_config C)\<rparr> \<and>
    ApiServer config \<in> {'''', ApiServer (ct_config C)} \<and> ApiServerProtocol (ct_config C) \<noteq> '''' \<and>
    ApiServer (ct_config C) = ApiServer config1 \<and> ApiServerProtocol (ct_config C) =
      (if ApiServerProtocol config = '''' then kubernetesServiceProtocol K w else ApiServerProtocol config)"
    by (cases "ApiServerProtocol config = ''''") auto
  then have "ApiServer (ct_config C) = ApiServer config1" by blast
  then have "if isOpenShift K L w then authorizeURL_from H (ApiServer (ct_config C)) (ct_authorizeURL C)
     else ct_authorizeURL C = '''' \<and> \<not> ct_has_oc C \<and> ApiServer (ct_config C) = ApiServer config"
    using su C(2,3) authorizeURL_setup_cases [of K H config w url config1] by (cases "isOpenShift K L w") auto
  with fits cfg show ?thesis by blast
qed

definition example_host :: host_env where
  "example_host = \<lparr>http_Get = (\<lambda>_. Inl (ErrMsg ''no route to host'')), decode_oauth_server = (\<lambda>_. Inl (ErrMsg ''no JSON'')),
     Getenv = (\<lambda>_. ''''), oclient_made = True\<rparr>"

definition openshift_state :: ref_state where
  "openshift_state = route_state\<lparr>ref_paths := [''/oapi''], ref_nodes := [example_node\<lparr>Name := ''n1'', ExternalID := ''mini''\<rparr>]\<rparr>"

theorem NewController_effect_witness:
  "\<exists>C st. NewController ref_client ref_lib example_host DefaultConfig openshift_state = Ok (C, st) \<and>
     strategy_fits ref_client ref_lib openshift_state '''' st \<and> ApiServerProtocol (ct_config C) = ''https''"
proof -
  have os: "typeOfMaster ref_client ref_lib openshift_state = Ok openShift"
    by (simp add: typeOfMaster_def ref_client_def ref_lib_def openshift_state_def)
  have "\<exists>C st. NewController ref_client ref_lib example_host DefaultConfig openshift_state = Ok (C, st)"
    by (simp add: NewController_def DefaultConfig_def New_auto_openShift [OF os] split: prod.splits)
  then obtain C st where new: "NewController ref_client ref_lib example_host DefaultConfig openshift_state = Ok (C, st)" by blast
  have "kubernetesServiceProtocol ref_client openshift_state = ''https''"
    by (simp add: kubernetesServiceProtocol_def ref_client_def ref_get_def openshift_state_def route_state_def lb_state_def)
  with NewController_effect [OF new] new show ?thesis by (auto simp: DefaultConfig_def)
qed

section \<open>Handling settles\<close>

lemma plan_applied:
  assumes "settings_ok (all_settings os has_oc config url svc cm)"
    and "annotation svc ExposeConfigYamlAnnotation = ''''"
  shows "(\<exists>p. serviceConfigMap_plan Y os has_oc config url svc cm = Panic p) \<or>
    (\<exists>d u. serviceConfigMap_plan Y os has_oc config url svc cm = Ok (cm\<lparr>Data := d\<rparr>, u) \<and>
       list_all (holds d) (all_settings os has_oc config url svc cm) \<and> (u \<or> d = Data cm))"
proof (cases "list_all (holds (Data cm)) (all_settings os has_oc config url svc cm)")
  case True
  then show ?thesis
    by (intro disjI2 exI [of _ "Data cm"] exI [of _ False]) (simp add: plan_without_yaml [OF assms(2)] apply_settings_held)
next
  case False
  show ?thesis
  proof (cases "Data cm")
    case None
    with False apply_settings_nil show ?thesis by (auto simp: plan_without_yaml [OF assms(2)])
  next
    case (Some m)
    with apply_settings_some [OF this assms(1), of False] False show ?thesis
      by (auto simp: plan_without_yaml [OF assms(2)])
  qed
qed

lemma firstMapValue_mget: "firstMapValue k [m, m'] = (if mget m k \<noteq> '''' then mget m k else mget m' k)"
  by (cases m; cases m') auto

lemma all_settings_cong:
  assumes "\<And>k. annotation d k = annotation cm k"
  shows "all_settings os has_oc config url svc d = all_settings os has_oc config url svc cm"
  unfolding all_settings_def server_settings_def cluster_settings_def url_settings_def firstMapValue_mget assms ..

lemma holds_cong: "(\<And>k. mget d k = mget e k) \<Longrightarrow> holds d = holds e"
  by (rule ext, rename_tac s, case_tac s) simp_all

lemma uninterested_cong: "(\<And>k. annotation d k = annotation cm k) \<Longrightarrow> uninterested n d = uninterested n cm"
  by (simp add: uninterested_def)

lemma otherConfigMaps_loop_quiet:
  "list_all (uninterested n) cms \<Longrightarrow> otherConfigMaps_loop K ns n http cms url w = (Ok (), w)"
  by (induction cms arbitrary: url) (simp_all add: inject_uninterested)

lemma accepted_config_map:
  assumes "accepts_config_map c d"
  shows "annotation d k = annotation c k" "mget (Data d) k = mget (Data c) k" "Name d = Name c" "Namespace d = Namespace c"
  using assms by (auto simp: accepts_config_map_def same_meta_def dest: wire_map_eq_mget)

definition all_uninterested :: "service \<Rightarrow> cluster \<Rightarrow> bool" where
  "all_uninterested svc V \<longleftrightarrow> (\<forall>m c. cmaps V (Namespace svc, m) = Some c \<longrightarrow> uninterested (Name svc) c)"

context app_server
begin

lemma updateOtherConfigMaps_quiet:
  assumes "Namespace svc \<noteq> ''''" "tidy (view w)" "all_uninterested svc (view w)"
  shows "\<exists>r. updateOtherConfigMaps K svc config url w = (r, w) \<and> (\<forall>p. r \<noteq> Panic p)"
proof (cases "configmaps_list K (Namespace svc) w")
  case (Inr cms)
  with list_config_maps [OF Inr assms(1)] assms(2) have "lists_namespace (cmaps (view w)) (Namespace svc) cms"
    by (simp add: tidy_def)
  with assms(3) have "list_all (uninterested (Name svc)) cms"
    by (auto simp: lists_namespace_def all_uninterested_def object_key_def list_all_iff)
  with Inr show ?thesis by (simp add: updateOtherConfigMaps_def otherConfigMaps_loop_quiet)
qed (simp add: updateOtherConfigMaps_def)

lemma rollingUpgrade_loop_cmaps: "cmaps (view (snd (rollingUpgrade_loop K ns name v ds w))) = cmaps (view w)"
proof (induction ds arbitrary: w)
  case (Cons d ds)
  obtain r w1 where w1: "deployments_update K ns (upgraded v d) w = (r, w1)" by fastforce
  then have "cmaps (view w1) = cmaps (view w)"
    by (cases r) (auto dest!: update_deployment refused_update_deployment)
  with Cons.IH w1 show ?case by (cases r) simp_all
qed simp

lemma rollingUpgradeDeployments_cmaps: "cmaps (view (snd (rollingUpgradeDeployments K L cm w))) = cmaps (view w)"
  by (auto simp: rollingUpgradeDeployments_def rollingUpgrade_loop_cmaps split: sum.splits)

end

context app_server
begin

text \<open>The ConfigMap of a service is written once; afterwards its settings hold and it is left alone.\<close>

lemma updateServiceConfigMap_settles:
  assumes "annotation svc ExposeConfigYamlAnnotation = ''''" "tidy (view w)"
    and get: "configmaps_get K (Namespace svc) (Name svc) w = Inr cm"
    and ok: "settings_ok (all_settings (isOpenShift K L w) (oc \<noteq> None) config url svc cm)"
    and willing: "\<And>c. Name c = Name svc \<Longrightarrow> \<exists>d. fst (configmaps_update K (Namespace svc) c w) = Inr d"
    and first: "updateServiceConfigMap K oc L Y svc config url w = (Ok (), w1)"
  shows "\<exists>d. cmaps (view w1) = (cmaps (view w))((Namespace svc, Name svc) \<mapsto> d) \<and>
    (\<forall>k. annotation d k = annotation cm k) \<and>
    list_all (holds (Data d)) (all_settings (isOpenShift K L w) (oc \<noteq> None) config url svc d)"
proof -
  let ?ss = "all_settings (isOpenShift K L w) (oc \<noteq> None) config url svc"
  let ?plan = "serviceConfigMap_plan Y (isOpenShift K L w) (oc \<noteq> None) config url svc cm"
  have stored: "cmaps (view w) (Namespace svc, Name svc) = Some cm" using get_config_map [OF get] .
  with assms(2) have names: "Name cm = Name svc" by (auto simp: tidy_def keyed_def)
  from first get have "\<nexists>p. ?plan = Panic p" by (auto simp: updateServiceConfigMap_def)
  with plan_applied [OF ok assms(1), of Y] obtain dat u where
    plan: "?plan = Ok (cm\<lparr>Data := dat\<rparr>, u)" "list_all (holds dat) (?ss cm)" "u \<or> dat = Data cm" by auto
  show ?thesis
  proof (cases u)
    case False
    with plan first get have "w1 = w" "dat = Data cm" by (auto simp: updateServiceConfigMap_def)
    with stored plan(2) show ?thesis by (intro exI [of _ cm]) (auto simp: fun_upd_idem)
  next
    case True
    from willing [of "cm\<lparr>Data := dat\<rparr>"] names obtain d wa where upd: "configmaps_update K (Namespace svc) (cm\<lparr>Data := dat\<rparr>) w = (Inr d, wa)"
      by (cases "configmaps_update K (Namespace svc) (cm\<lparr>Data := dat\<rparr>) w") auto
    have w1: "w1 = snd (rollingUpgradeDeployments K L (cm\<lparr>Data := dat\<rparr>) wa)"
      using first get plan(1) True upd by (auto simp: updateServiceConfigMap_def split: prod.splits)
    from update_config_map [OF upd] have acc: "accepts_config_map (cm\<lparr>Data := dat\<rparr>) d"
      and "cmaps (view wa) = (cmaps (view w))((Namespace svc, Name svc) \<mapsto> d)" by (simp_all add: names)
    then have cmaps: "cmaps (view w1) = (cmaps (view w))((Namespace svc, Name svc) \<mapsto> d)"
      by (simp add: w1 rollingUpgradeDeployments_cmaps)
    have ann: "annotation d k = annotation cm k" for k using accepted_config_map(1) [OF acc, of k] by simp
    have "holds (Data d) = holds dat" using accepted_config_map(2) [OF acc] by (intro holds_cong) simp
    with plan(2) all_settings_cong [of d cm, OF ann] cmaps ann show ?thesis by (intro exI [of _ d]) simp
  qed
qed

lemma updateServiceConfigMap_quiet:
  assumes "annotation svc ExposeConfigYamlAnnotation = ''''"
    and "configmaps_get K (Namespace svc) (Name svc) w = Inr d"
    and "list_all (holds (Data d)) (all_settings (isOpenShift K L w) (oc \<noteq> None) config url svc d)"
  shows "updateServiceConfigMap K oc L Y svc config url w = (Ok (), w)"
  using assms(2,3) by (simp add: updateServiceConfigMap_def plan_without_yaml [OF assms(1)] apply_settings_held)

text \<open>The OAuth client is written at most once, provided that the server lets it be deleted.\<close>

lemma updateServiceOAuthClient_settles:
  assumes "tidy (view w)"
    and "\<And>v c. oauthclients_get OC (Name svc) v = Inr c \<Longrightarrow> fst (oauthclients_delete OC (Name svc) v) = None"
  shows "updateServiceOAuthClient OC svc (updateServiceOAuthClient OC svc w) = updateServiceOAuthClient OC svc w \<and>
    cmaps (view (updateServiceOAuthClient OC svc w)) = cmaps (view w)"
proof (cases "updateServiceOAuthClient OC svc w = w")
  case False
  let ?w1 = "updateServiceOAuthClient OC svc w" and ?url = "annotation svc ExposeAnnotationKey"
  from False obtain c where c: "oauthclients_get OC (Name svc) w = Inr c" and url: "?url \<noteq> ''''" "?url \<notin> set (RedirectURIs c)"
    by (auto simp: updateServiceOAuthClient_def Let_def split: if_splits sum.splits)
  have "Name c = Name svc" using get_oauthclient [OF c] assms(1) by (auto simp: tidy_def)
  note cases = updateServiceOAuthClient_cases [OF c this refl url]
  obtain w2 where "oauthclients_delete OC (Name svc) w = (None, w2)" using assms(2) [OF c] by (metis prod.collapse)
  moreover obtain r w3 where "oauthclients_create OC (c\<lparr>RedirectURIs := RedirectURIs c @ [?url], ResourceVersion := ''''\<rparr>) w2 = (r, w3)"
    by fastforce
  ultimately have "\<exists>x. view ?w1 = (view w)\<lparr>oauths := (oauths (view w))(Name svc := x)\<rparr> \<and>
      (\<forall>d. x = Some d \<longrightarrow> ?url \<in> set (RedirectURIs d))"
    using cases by (cases r) force+
  then obtain x where v: "view ?w1 = (view w)\<lparr>oauths := (oauths (view w))(Name svc := x)\<rparr>"
    and x: "\<And>d. x = Some d \<Longrightarrow> ?url \<in> set (RedirectURIs d)" by blast
  have "?url \<in> set (RedirectURIs d)" if "oauthclients_get OC (Name svc) ?w1 = Inr d" for d
    using get_oauthclient [OF that] v x by simp
  with v show ?thesis
    by (auto simp: updateServiceOAuthClient_def [of OC svc ?w1] Let_def split: sum.splits)
qed simp

text \<open>What \<^verbatim>\<open>updateRelatedResources\<close> wrote it does not write again.\<close>

lemma updateRelatedResources_settles:
  assumes svc: "Namespace svc \<noteq> ''''" "annotation svc ExposeConfigYamlAnnotation = ''''"
    and w: "tidy (view w)" "all_uninterested svc (view w)"
    and cm: "configmaps_get K (Namespace svc) (Name svc) w = Inr cm"
      "settings_ok (all_settings (isOpenShift K L w) (oc \<noteq> None) config url svc cm)"
    and willing: "\<And>c. Name c = Name svc \<Longrightarrow> \<exists>d. fst (configmaps_update K (Namespace svc) c w) = Inr d"
    and oc: "oc = None \<or> oc = Some OC"
      "\<And>v c. oauthclients_get OC (Name svc) v = Inr c \<Longrightarrow> fst (oauthclients_delete OC (Name svc) v) = None"
    and first: "updateRelatedResources K oc L Y svc config url w = (Ok (), w1)"
    and later: "configmaps_get K (Namespace svc) (Name svc) w1 = Inr cm1" "isOpenShift K L w1 = isOpenShift K L w"
  shows "list_all (holds (Data cm1)) (all_settings (isOpenShift K L w) (oc \<noteq> None) config url svc cm1) \<and>
    updateRelatedResources K oc L Y svc config url w1 = (Ok (), w1)"
proof -
  let ?oauth = "\<lambda>v. case oc of None \<Rightarrow> v | Some OC \<Rightarrow> updateServiceOAuthClient OC svc v"
  obtain r wa where wa: "updateServiceConfigMap K oc L Y svc config url w = (r, wa)" by fastforce
  with first have "r = Ok ()"
    by (auto simp: updateRelatedResources_def updateServiceConfigMap_def split: sum.splits outcome.splits prod.splits if_splits)
  with wa have "updateServiceConfigMap K oc L Y svc config url w = (Ok (), wa)" by simp
  from updateServiceConfigMap_settles [OF svc(2) w(1) cm willing this] obtain d where
    d: "cmaps (view wa) = (cmaps (view w))((Namespace svc, Name svc) \<mapsto> d)" "\<And>k. annotation d k = annotation cm k"
      "list_all (holds (Data d)) (all_settings (isOpenShift K L w) (oc \<noteq> None) config url svc d)" by auto
  have tidy: "tidy (view wa)"
    using within_updateServiceConfigMap [of svc "Name svc" w oc Y config url] wa w(1) by (simp add: within_def)
  have oauth: "?oauth (?oauth wa) = ?oauth wa" "cmaps (view (?oauth wa)) = cmaps (view wa)" "tidy (view (?oauth wa))"
    using oc(1) updateServiceOAuthClient_settles [OF tidy oc(2)] tidy within_updateServiceOAuthClient [of "Namespace svc" svc wa]
    by (auto simp: within_def)
  have un: "all_uninterested svc (view (?oauth wa))"
    using w(2) d(1) oauth(2) uninterested_cong [of d cm, OF d(2)] get_config_map [OF cm(1)] by (auto simp: all_uninterested_def)
  note quiet = updateOtherConfigMaps_quiet [OF svc(1) oauth(3) un, of config "annotation svc ExposeAnnotationKey"]
  from quiet first wa \<open>r = Ok ()\<close> have w1: "w1 = ?oauth wa"
    by (auto simp: updateRelatedResources_def Let_def split: if_splits outcome.splits)
  with get_config_map [OF later(1)] d(1) oauth(2) have "cm1 = d" by simp
  then have held: "list_all (holds (Data cm1)) (all_settings (isOpenShift K L w1) (oc \<noteq> None) config url svc cm1)"
    using d(3) later(2) by simp
  from updateServiceConfigMap_quiet [OF svc(2) later(1) held, of Y] quiet oauth(1)
  have "updateRelatedResources K oc L Y svc config url w1 = (Ok (), w1)"
    by (auto simp: updateRelatedResources_def Let_def w1 split: outcome.splits)
  with held later(2) show ?thesis by simp
qed

end

text \<open>
  The strategies that come to rest: load balancer, ingress, and node port for a service whose node
  ports are allocated. The key under which the host name is asked for must not be one that the
  strategy reads. A route that was generated, and the ambassador annotation, are written again by
  every call.
\<close>

definition comes_to_rest :: "strategy \<Rightarrow> service \<Rightarrow> bool" where
  "comes_to_rest st svc \<longleftrightarrow>
     (case st of
        LoadBalancerStrategy \<Rightarrow> plain_host_key svc
      | NodePortStrategy s \<Rightarrow> plain_host_key svc \<and> list_all (\<lambda>p. NodePort p \<noteq> 0) (Ports svc)
      | IngressStrategy s \<Rightarrow> annotation svc ExposeHostNameAsAnnotationKey \<notin> set ingress_keys
      | _ \<Rightarrow> False)"

lemma comes_to_rest_keeps:
  "comes_to_rest st svc \<Longrightarrow> strategy_Add K OC L st svc' w = (r, svc1, st1, w1) \<Longrightarrow> svc1 = svc' \<and> st1 = st"
  by (auto simp: comes_to_rest_def strategy_Add_def split: strategy.splits prod.splits)

lemma accepted_clone_names:
  "accepts_service (LoadBalancer_clone svc) t \<Longrightarrow> Name t = Name svc \<and> Namespace t = Namespace svc"
  "accepts_service (NodePort_clone s svc p) t \<Longrightarrow> Name t = Name svc \<and> Namespace t = Namespace svc"
  "accepts_service (Ingress_clone L i svc) t \<Longrightarrow> Name t = Name svc \<and> Namespace t = Namespace svc"
  by (auto simp: accepts_service_def same_meta_def LoadBalancer_clone_def NodePort_clone_def Ingress_clone_def
      addServiceAnnotation_def addServiceAnnotationWithProtocol_annotate Let_def split: if_splits)

context openshift_server
begin

lemma strategy_at_rest:
  assumes "strategy_Add K OC L st svc w0 = (Ok (), svc1, st1, w1)" "comes_to_rest st svc"
    and "svcs (view w0) (service_key svc) = Some svc" "ingresses_keyed (view w0)"
    and "svcs (view w1) (service_key svc) = Some t" "encode L t = Inr e"
  shows "Name t = Name svc \<and> Namespace t = Namespace svc"
    and "ings (view w) = ings (view w1) \<Longrightarrow> \<exists>r. strategy_Add K OC L st t w = (r, t, st, w) \<and> (\<forall>p. r \<noteq> Panic p)"
proof -
  have "(Name t = Name svc \<and> Namespace t = Namespace svc) \<and>
    (ings (view w) = ings (view w1) \<longrightarrow> (\<exists>r. strategy_Add K OC L st t w = (r, t, st, w) \<and> (\<forall>p. r \<noteq> Panic p)))"
  proof (cases st)
    case LoadBalancerStrategy
    then have "LoadBalancer_Add K L svc w0 = (Ok (), w1)" using assms(1) by (auto simp: strategy_Add_def split: prod.splits)
    from LoadBalancer_Add_stored [OF this assms(3)] assms(5) have t: "accepts_service (LoadBalancer_clone svc) t" by simp
    with LoadBalancerStrategy assms(2) LoadBalancer_clone_settled have "LoadBalancer_clone t = t"
      by (auto simp: comes_to_rest_def)
    with LoadBalancerStrategy accepted_clone_names(1) [OF t] assms(6) show ?thesis
      by (simp add: strategy_Add_def LoadBalancer_Add_def patchService_same)
  next
    case (NodePortStrategy s)
    then have add: "NodePort_Add K L s svc w0 = (Ok (), w1)" using assms(1) by (auto simp: strategy_Add_def split: prod.splits)
    then obtain p where p: "Ports svc = [p]" by (auto simp: NodePort_Add_def split: list.splits)
    with add have "patchService K L (''failed to send patch for '' @ Namespace svc @ ''/'' @ Name svc) svc (NodePort_clone s svc p) w0 =
      (Ok (), w1)" by (simp add: NodePort_Add_def)
    from patchService_stored [OF this assms(3)] assms(5) have t: "accepts_service (NodePort_clone s svc p) t" by auto
    with NodePortStrategy assms(2) p NodePort_clone_settled [of svc p s t] obtain q where
      "Ports t = [q]" "NodePort_clone s t q = t" by (auto simp: comes_to_rest_def)
    with NodePortStrategy accepted_clone_names(2) [OF t] assms(6) show ?thesis
      by (simp add: strategy_Add_def NodePort_Add_def patchService_same)
  next
    case (IngressStrategy s)
    then have add: "Ingress_Add K L s svc w0 = (Ok (), w1)" using assms(1) by (auto simp: strategy_Add_def split: prod.splits)
    have key: "annotation svc ExposeHostNameAsAnnotationKey \<notin> set ingress_keys"
      using IngressStrategy assms(2) by (simp add: comes_to_rest_def)
    have "Name t = Name svc \<and> Namespace t = Namespace svc"
      using Ingress_Add_effect_lemma [OF add assms(3,4)] assms(3,5) by (auto dest: accepted_clone_names(3))
    with Ingress_Add_settles [OF add assms(3,4,5) key, of w] IngressStrategy show ?thesis
      by (auto simp: strategy_Add_def)
  qed (use assms(2) in \<open>simp_all add: comes_to_rest_def\<close>)
  then show "Name t = Name svc \<and> Namespace t = Namespace svc"
    "ings (view w) = ings (view w1) \<Longrightarrow> \<exists>r. strategy_Add K OC L st t w = (r, t, st, w) \<and> (\<forall>p. r \<noteq> Panic p)" by blast+
qed

end

context app_server
begin

text \<open>A handling in which the strategy has nothing to do is the update of the related resources.\<close>

lemma expose_service_related:
  assumes "\<exists>r. strategy_Add K OC L st svc w = (r, svc, st, w) \<and> (\<forall>p. r \<noteq> Panic p)"
    and "isServiceWhitelisted (Name svc) (ct_config C)"
  shows "expose_service K OC L Y C svc st w =
    (case updateRelatedResources K (controller_oc C OC) L Y svc (ct_config C) (ct_authorizeURL C) w of (r, w') \<Rightarrow> (r, svc, st, w'))"
proof -
  from assms(1) obtain r where "strategy_Add K OC L st svc w = (r, svc, st, w)" "\<forall>p. r \<noteq> Panic p" by blast
  with assms(2) show ?thesis by (cases r) (simp_all add: expose_service_def)
qed

lemma controller_oc_cases: "controller_oc C OC = None \<or> controller_oc C OC = Some OC"
  by (simp add: controller_oc_def)

lemma expose_service_first:
  assumes "expose_service K OC L Y C svc st w0 = (Ok (), svc1, st1, w)" "fst (strategy_Add K OC L st svc w0) = Ok ()"
    and "isServiceWhitelisted (Name svc) (ct_config C)"
  obtains svc2 st2 wa where "strategy_Add K OC L st svc w0 = (Ok (), svc2, st2, wa)" "same_exposure (view wa) (view w)"
proof -
  obtain svc2 st2 wa where add: "strategy_Add K OC L st svc w0 = (Ok (), svc2, st2, wa)"
    using assms(2) by (cases "strategy_Add K OC L st svc w0") auto
  have "same_exposure (view wa) (view w)"
    using assms(1,3) add updateRelatedResources_same [OF controller_oc_cases, of wa C Y svc2 "ct_config C" "ct_authorizeURL C"]
    by (auto simp: expose_service_def split: prod.splits)
  with add show thesis by (rule that)
qed

end

text \<open>
  C6: handling settles. Let a stored service be handled with success by a strategy that comes to rest
  (the load balancer, the ingress or the node port strategy), then be handled again in the form in
  which it was stored, and then once more. Provided that it has no ConfigYaml, that its ConfigMap
  names no key twice and no other ConfigMap asks for its URL, that the server takes the update of
  the ConfigMap and lets the OAuth client be deleted, the second handling writes no service, ingress
  or route, after it every value the ConfigMap asks for is in place, and the third, like every later
  resync, sends no write at all: no deployment is rolled and no OAuth client is made anew.
\<close>

theorem handling_settles:
  assumes "app_server K L view OC"
    and "expose_service K OC L Y C svc0 st w0 = (Ok (), svc0', st0, w)" "fst (strategy_Add K OC L st svc0 w0) = Ok ()"
    and "comes_to_rest st svc0" "isServiceWhitelisted (Name svc0) (ct_config C)"
    and "svcs (view w0) (service_key svc0) = Some svc0" "ingresses_keyed (view w0)"
    and "svcs (view w) (service_key svc0) = Some svc" "encode L svc = Inr e"
    and "Namespace svc \<noteq> ''''" "annotation svc ExposeConfigYamlAnnotation = ''''"
    and "tidy (view w)" "all_uninterested svc (view w)"
    and "configmaps_get K (Namespace svc) (Name svc) w = Inr cm"
    and "settings_ok (all_settings (isOpenShift K L w) (ct_has_oc C) (ct_config C) (ct_authorizeURL C) svc cm)"
    and "\<And>c. Name c = Name svc \<Longrightarrow> \<exists>d. fst (configmaps_update K (Namespace svc) c w) = Inr d"
    and "\<And>v c. oauthclients_get OC (Name svc) v = Inr c \<Longrightarrow> fst (oauthclients_delete OC (Name svc) v) = None"
    and "expose_service K OC L Y C svc st w = (Ok (), svc1, st1, w1)"
    and "configmaps_get K (Namespace svc) (Name svc) w1 = Inr cm1" "isOpenShift K L w1 = isOpenShift K L w"
  shows "same_exposure (view w) (view w1) \<and>
    list_all (holds (Data cm1)) (all_settings (isOpenShift K L w) (ct_has_oc C) (ct_config C) (ct_authorizeURL C) svc cm1) \<and>
    expose_service K OC L Y C svc st w1 = (Ok (), svc, st, w1)"
proof -
  let ?oc = "controller_oc C OC"
  note os = app_server.axioms(1) [OF assms(1)]
  have oc: "?oc \<noteq> None \<longleftrightarrow> ct_has_oc C" "?oc = None \<or> ?oc = Some OC" by (auto simp: controller_oc_def)
  obtain svc2 st2 wa where add: "strategy_Add K OC L st svc0 w0 = (Ok (), svc2, st2, wa)" and wa: "same_exposure (view wa) (view w)"
    using assms(2,3,5) by (rule app_server.expose_service_first [OF assms(1)])
  have "svcs (view wa) (service_key svc0) = Some svc" using wa assms(8) by (simp add: same_exposure_def)
  note rest = openshift_server.strategy_at_rest [OF os add assms(4,6,7) this assms(9)]
  have white: "isServiceWhitelisted (Name svc) (ct_config C)" using rest(1) assms(5) by simp
  have quiet: "expose_service K OC L Y C svc st v =
      (case updateRelatedResources K ?oc L Y svc (ct_config C) (ct_authorizeURL C) v of (r, w') \<Rightarrow> (r, svc, st, w'))"
    if "same_exposure (view w) (view v)" for v
    using that wa by (intro app_server.expose_service_related [OF assms(1) rest(2) white]) (simp add: same_exposure_def)
  from quiet [of w] assms(18) have first: "updateRelatedResources K ?oc L Y svc (ct_config C) (ct_authorizeURL C) w = (Ok (), w1)"
    by (auto split: prod.splits)
  have same: "same_exposure (view w) (view w1)"
    using app_server.updateRelatedResources_same [OF assms(1) oc(2), of w Y svc "ct_config C" "ct_authorizeURL C"] first by simp
  from app_server.updateRelatedResources_settles [OF assms(1,10-14) assms(15) [folded oc(1)] assms(16) oc(2) _ first assms(19,20)] assms(17)
  have "list_all (holds (Data cm1)) (all_settings (isOpenShift K L w) (ct_has_oc C) (ct_config C) (ct_authorizeURL C) svc cm1) \<and>
    updateRelatedResources K ?oc L Y svc (ct_config C) (ct_authorizeURL C) w1 = (Ok (), w1)" unfolding oc(1) by blast
  with same quiet [OF same] show ?thesis by simp
qed

definition settled_service :: service where
  "settled_service = url_service\<lparr>ServiceType := ''LoadBalancer'', LoadBalancerIP := ''''\<rparr>"

definition url_key_map :: config_map where
  "url_key_map = empty_config_map\<lparr>Annotations := Some (fmupd ExposeConfigURLKeyAnnotation ''u'' fmempty),
     Data := Some fmempty\<rparr>"

definition settle_state :: "config_map \<Rightarrow> ref_state" where
  "settle_state c = lb_state\<lparr>ref_services := [((''dev'', ''web''), settled_service)], ref_configmaps := [((''dev'', ''web''), c)]\<rparr>"

lemma settled_service_simps [simp]:
  "Namespace settled_service = ''dev''" "Name settled_service = ''web''"
  "Annotations settled_service = Some (fmupd ExposeAnnotationKey ''http://new'' fmempty)"
  by (simp_all add: settled_service_def url_service_def lb_service_def example_service_def)

lemma url_key_map_simps [simp]:
  "Namespace url_key_map = ''dev''" "Name url_key_map = ''web''" "Data url_key_map = Some fmempty"
  "Annotations url_key_map = Some (fmupd ExposeConfigURLKeyAnnotation ''u'' fmempty)"
  by (simp_all add: url_key_map_def empty_config_map_def)

lemma settle_state_facts:
  assumes "Namespace c = ''dev''" "Name c = ''web''" "Annotations c = Annotations url_key_map"
  shows "tidy (ref_view (settle_state c))" "all_uninterested settled_service (ref_view (settle_state c))"
    "configmaps_get ref_client ''dev'' ''web'' (settle_state c) = Inr c"
    "isOpenShift ref_client ref_lib (settle_state c) = False"
    "deployments_list ref_client ''dev'' (settle_state c) = Inr []"
    "configmaps_update ref_client ''dev'' c (settle_state e) = (Inr (stamp c), settle_state (stamp c))"
    "svcs (ref_view (settle_state c)) (service_key settled_service) = Some settled_service"
    "ingresses_keyed (ref_view (settle_state c))"
  using assms
  by (simp_all add: ingresses_keyed_def settle_state_def lb_state_def tidy_def keyed_def ref_view_def all_uninterested_def uninterested_def
      ref_client_def ref_get_def ref_list_def ref_lib_def isOpenShift_def)

lemma strategy_Add_settled: "strategy_Add ref_client ref_oclient ref_lib LoadBalancerStrategy settled_service w =
    (Ok (), settled_service, LoadBalancerStrategy, w)"
proof -
  have "LoadBalancer_clone settled_service = settled_service"
    by (simp add: LoadBalancer_clone_def settled_service_def)
  moreover have "encode ref_lib settled_service = Inr (Doc settled_service)" by (simp add: ref_lib_def)
  ultimately show ?thesis by (simp add: strategy_Add_def LoadBalancer_Add_def patchService_same)
qed

definition settle_controller :: controller where
  "settle_controller = \<lparr>ct_config = DefaultConfig, ct_has_oc = True, ct_authorizeURL = ''''\<rparr>"

lemma settle_oauth: "updateServiceOAuthClient ref_oclient settled_service (settle_state c) = settle_state c"
  by (simp add: updateServiceOAuthClient_def ref_oclient_def ref_get_def settle_state_def lb_state_def)

lemma settled_plan:
  "settings_ok (all_settings False True DefaultConfig '''' settled_service url_key_map) \<and>
   (\<exists>dat u. serviceConfigMap_plan ref_yaml_lib False True DefaultConfig '''' settled_service url_key_map =
      Ok (url_key_map\<lparr>Data := dat\<rparr>, u))"
proof
  show ok: "settings_ok (all_settings False True DefaultConfig '''' settled_service url_key_map)"
    by (auto simp: settings_ok_def all_settings_def server_settings_def cluster_settings_def url_settings_def Let_def
        firstMapValue_mget DefaultConfig_def consoleURL_of_def simp del: firstMapValue.simps)
  have "annotation settled_service ExposeConfigYamlAnnotation = ''''" by simp
  from apply_settings_some [OF url_key_map_simps(3) ok, of False] plan_without_yaml [OF this]
  show "\<exists>dat u. serviceConfigMap_plan ref_yaml_lib False True DefaultConfig '''' settled_service url_key_map =
      Ok (url_key_map\<lparr>Data := dat\<rparr>, u)" by metis
qed

theorem handling_settles_witness:
  "\<exists>c. expose_service ref_client ref_oclient ref_lib ref_yaml_lib settle_controller settled_service LoadBalancerStrategy
       (settle_state url_key_map) = (Ok (), settled_service, LoadBalancerStrategy, settle_state c) \<and>
     mget (Data c) ''u'' = ''http://new'' \<and>
     expose_service ref_client ref_oclient ref_lib ref_yaml_lib settle_controller settled_service LoadBalancerStrategy
       (settle_state c) = (Ok (), settled_service, LoadBalancerStrategy, settle_state c)"
proof -
  let ?C = settle_controller and ?w = "settle_state url_key_map"
  have C: "ct_has_oc ?C" "isServiceWhitelisted (Name settled_service) (ct_config ?C)" "ct_config ?C = DefaultConfig"
    "ct_authorizeURL ?C = ''''" "controller_oc ?C ref_oclient = Some ref_oclient"
    by (simp_all add: settle_controller_def isServiceWhitelisted_def DefaultConfig_def controller_oc_def)
  have meta: "Namespace url_key_map = ''dev''" "Name url_key_map = ''web''" by simp_all
  note w = settle_state_facts [OF meta refl]
  from settled_plan obtain dat u where
    plan: "serviceConfigMap_plan ref_yaml_lib False True DefaultConfig '''' settled_service url_key_map =
      Ok (url_key_map\<lparr>Data := dat\<rparr>, u)" by blast
  define c where "c = (if u then stamp (url_key_map\<lparr>Data := dat\<rparr>) else url_key_map)"
  have c: "Namespace c = ''dev''" "Name c = ''web''" "Annotations c = Annotations url_key_map"
    by (simp_all add: c_def stamp_def)
  note w1 = settle_state_facts [OF c]
  have "updateServiceConfigMap ref_client (Some ref_oclient) ref_lib ref_yaml_lib settled_service DefaultConfig '''' ?w = (Ok (), settle_state c)"
    using settle_state_facts(5,6) [of "stamp (url_key_map\<lparr>Data := dat\<rparr>)"] settle_state_facts(6) [of "url_key_map\<lparr>Data := dat\<rparr>"]
    by (simp add: updateServiceConfigMap_def w plan c_def rollingUpgradeDeployments_def stamp_def)
  with ref.updateOtherConfigMaps_quiet [OF _ w1(1,2), of DefaultConfig "''http://new''"]
  have related: "updateRelatedResources ref_client (Some ref_oclient) ref_lib ref_yaml_lib settled_service DefaultConfig '''' ?w = (Ok (), settle_state c)"
    by (auto simp: updateRelatedResources_def settle_oauth split: outcome.splits)
  with C have first: "expose_service ref_client ref_oclient ref_lib ref_yaml_lib ?C settled_service LoadBalancerStrategy ?w =
      (Ok (), settled_service, LoadBalancerStrategy, settle_state c)"
    by (simp add: expose_service_def strategy_Add_settled)
  have willing: "\<exists>d. fst (configmaps_update ref_client (Namespace settled_service) e (settle_state f)) = Inr d"
    if "Name e = Name settled_service" for e f
    using that by (simp add: ref_client_def settle_state_def)
  have deletable: "fst (oauthclients_delete ref_oclient (Name settled_service) v) = None"
    if "oauthclients_get ref_oclient (Name settled_service) v = Inr e" for v e
    using that by (auto simp: ref_oclient_def ref_get_def split: option.splits)
  have ok: "settings_ok (all_settings False True DefaultConfig '''' settled_service d)"
    if "Annotations d = Annotations url_key_map" for d :: config_map
    using settled_plan all_settings_cong [of d url_key_map] that by simp
  have okc: "settings_ok (all_settings (isOpenShift ref_client ref_lib (settle_state c)) (ct_has_oc ?C) (ct_config ?C) (ct_authorizeURL ?C)
      settled_service c)"
    unfolding w1(4) C(3,4) using ok [OF c(3)] C(1) by simp
  have enc: "encode ref_lib settled_service = Inr (Doc settled_service)" by (simp add: ref_lib_def)
  have deliver: "list_all (holds (Data c)) (all_settings False True DefaultConfig '''' settled_service c) \<and>
      updateRelatedResources ref_client (Some ref_oclient) ref_lib ref_yaml_lib settled_service DefaultConfig '''' (settle_state c) =
        (Ok (), settle_state c)"
    using ref.updateRelatedResources_settles [OF _ _ w(1,2) _ _ _ _ _ related, of url_key_map c] willing deletable ok [of url_key_map]
    by (simp add: w w1)
  then have second: "expose_service ref_client ref_oclient ref_lib ref_yaml_lib ?C settled_service LoadBalancerStrategy (settle_state c) =
      (Ok (), settled_service, LoadBalancerStrategy, settle_state c)"
    using C by (simp add: expose_service_def strategy_Add_settled)
  have "expose_service ref_client ref_oclient ref_lib ref_yaml_lib ?C settled_service LoadBalancerStrategy (settle_state c) =
      (Ok (), settled_service, LoadBalancerStrategy, settle_state c)"
    by (rule handling_settles [OF ref.app_server_axioms first _ _ C(2) w(7,8) w1(7) enc _ _ w1(1,2) _ okc willing deletable second,
          THEN conjunct2, THEN conjunct2])
      (simp_all add: w1 strategy_Add_settled comes_to_rest_def plain_host_key_def)
  moreover have "Set ''u'' ''http://new'' \<in> set (all_settings False True DefaultConfig '''' settled_service c)"
    by (simp add: all_settings_def url_settings_def Let_def c(3))
  ultimately show ?thesis using first deliver by (intro exI [of _ c]) (fastforce simp: list_all_iff)
qed

end
