(* ===== verification/DeltaFifo.thy ===== *)
theory DeltaFifo
  imports Controller
begin

text \<open>
  The queue of the informer, \<^verbatim>\<open>DeltaFIFO\<close> of the client library, as \<^verbatim>\<open>NewInformer\<close> makes it: keyed by
  namespace and name, with no compressor, and with the informer's store as its known objects. The
  changes of one service wait together, oldest first; services are taken in the order in which they
  entered. The detailed queue implements a list of entries through the interface \<open>delta_queue\<close>.
\<close>

section \<open>Changes and keys\<close>

datatype delta = Sync service | Added service | Updated service | Deleted deleted

fun is_Sync :: "delta \<Rightarrow> bool" where
  "is_Sync (Sync _) \<longleftrightarrow> True"
| "is_Sync _ \<longleftrightarrow> False"

fun is_Deleted :: "delta \<Rightarrow> bool" where
  "is_Deleted (Deleted _) \<longleftrightarrow> True"
| "is_Deleted _ \<longleftrightarrow> False"

text \<open>\<^verbatim>\<open>MetaNamespaceKeyFunc\<close> and \<^verbatim>\<open>DeletionHandlingMetaNamespaceKeyFunc\<close>.\<close>

definition meta_key :: "service \<Rightarrow> string" where
  "meta_key svc = (if Namespace svc \<noteq> '''' then Namespace svc @ ''/'' @ Name svc else Name svc)"

fun deleted_key :: "deleted \<Rightarrow> string" where
  "deleted_key (DeletedObject svc) = meta_key svc"
| "deleted_key (DeletedFinalStateUnknown key _) = key"

text \<open>The key of the object of a change; a service always has one.\<close>

fun KeyOf :: "delta \<Rightarrow> string" where
  "KeyOf (Sync svc) = meta_key svc"
| "KeyOf (Added svc) = meta_key svc"
| "KeyOf (Updated svc) = meta_key svc"
| "KeyOf (Deleted obj) = deleted_key obj"

section \<open>The queue\<close>

record fifo =
  fifo_items :: "string \<rightharpoonup> delta list"
  fifo_queue :: "string list"
  populated :: bool
  initialPopulationCount :: nat

definition NewDeltaFIFO :: fifo where
  "NewDeltaFIFO = \<lparr>fifo_items = Map.empty, fifo_queue = [], populated = False, initialPopulationCount = 0\<rparr>"

definition HasSynced :: "fifo \<Rightarrow> bool" where
  "HasSynced f \<longleftrightarrow> populated f \<and> initialPopulationCount f = 0"

text \<open>Reading a missing key of a Go map gives the empty slice.\<close>

definition deltas_at :: "fifo \<Rightarrow> string \<Rightarrow> delta list" where
  "deltas_at f k = (case fifo_items f k of Some ds \<Rightarrow> ds | None \<Rightarrow> [])"

text \<open>Of two deletions the one with more information is kept.\<close>

fun isDeletionDup :: "delta \<Rightarrow> delta \<Rightarrow> delta option" where
  "isDeletionDup a (Deleted (DeletedFinalStateUnknown k x)) = (if is_Deleted a then Some a else None)"
| "isDeletionDup a (Deleted (DeletedObject svc)) = (if is_Deleted a then Some (Deleted (DeletedObject svc)) else None)"
| "isDeletionDup a _ = None"

definition isDup :: "delta \<Rightarrow> delta \<Rightarrow> delta option" where
  "isDup a b = (case isDeletionDup a b of Some out \<Rightarrow> Some out | None \<Rightarrow> None)"

definition dedupDeltas :: "delta list \<Rightarrow> delta list" where
  "dedupDeltas deltas =
     (let n = length deltas in
      if n < 2 then deltas
      else case isDup (deltas ! (n - 1)) (deltas ! (n - 2)) of
             Some out \<Rightarrow> take (n - 2) deltas @ [out]
           | None \<Rightarrow> deltas)"

definition willObjectBeDeleted :: "fifo \<Rightarrow> string \<Rightarrow> bool" where
  "willObjectBeDeleted f k =
     (let deltas = deltas_at f k in length deltas > 0 \<and> is_Deleted (deltas ! (length deltas - 1)))"

definition queueAction :: "delta \<Rightarrow> fifo \<Rightarrow> fifo" where
  "queueAction d f =
     (let k = KeyOf d in
      if is_Sync d \<and> willObjectBeDeleted f k then f
      else
        let newDeltas = dedupDeltas (deltas_at f k @ [d]); present = (fifo_items f k \<noteq> None) in
        if length newDeltas > 0
        then f\<lparr>fifo_items := (fifo_items f)(k \<mapsto> newDeltas),
               fifo_queue := (if present then fifo_queue f else fifo_queue f @ [k])\<rparr>
        else if present then f\<lparr>fifo_items := (fifo_items f)(k := None)\<rparr>
        else f)"

definition fifo_Add :: "service \<Rightarrow> fifo \<Rightarrow> fifo" where
  "fifo_Add svc f = queueAction (Added svc) (f\<lparr>populated := True\<rparr>)"

definition fifo_Update :: "service \<Rightarrow> fifo \<Rightarrow> fifo" where
  "fifo_Update svc f = queueAction (Updated svc) (f\<lparr>populated := True\<rparr>)"

text \<open>A deletion of a service that is neither in the store nor in the queue is not reported again.\<close>

definition fifo_Delete :: "(string \<rightharpoonup> service) \<Rightarrow> deleted \<Rightarrow> fifo \<Rightarrow> fifo" where
  "fifo_Delete store obj f =
     (let k = deleted_key obj; f1 = f\<lparr>populated := True\<rparr> in
      if store k = None \<and> fifo_items f1 k = None then f1 else queueAction (Deleted obj) f1)"

text \<open>
  A new listing: one \<open>Sync\<close> per service, and a marker for every known key that is not listed.
  \<open>known\<close> are the keys of the store in the order in which Go lists them.
\<close>

definition Replace :: "string list \<Rightarrow> (string \<rightharpoonup> service) \<Rightarrow> service list \<Rightarrow> fifo \<Rightarrow> fifo" where
  "Replace known store found f =
     (let keys = map meta_key found;
          f1 = (if populated f then f else f\<lparr>populated := True, initialPopulationCount := length found\<rparr>);
          f2 = fold (\<lambda>svc. queueAction (Sync svc)) found f1
      in fold (\<lambda>k. if k \<in> set keys then id else queueAction (Deleted (DeletedFinalStateUnknown k (store k)))) known f2)"

definition Resync :: "string list \<Rightarrow> (string \<rightharpoonup> service) \<Rightarrow> fifo \<Rightarrow> fifo" where
  "Resync known store f =
     fold (\<lambda>k. case store k of Some obj \<Rightarrow> queueAction (Sync obj) | None \<Rightarrow> id) known f"

text \<open>
  \<^verbatim>\<open>Pop\<close> up to the call of the handlers: keys without an item are skipped, and on an empty queue it
  waits (\<open>None\<close>).
\<close>

fun pop_loop :: "string list \<Rightarrow> fifo \<Rightarrow> delta list option \<times> fifo" where
  "pop_loop [] f = (None, f)"
| "pop_loop (k # q) f =
     (let f1 = f\<lparr>fifo_queue := q, initialPopulationCount := initialPopulationCount f - 1\<rparr> in
      case fifo_items f1 k of
        None \<Rightarrow> pop_loop q f1
      | Some item \<Rightarrow> (Some item, f1\<lparr>fifo_items := (fifo_items f1)(k := None)\<rparr>))"

definition Pop :: "fifo \<Rightarrow> delta list option \<times> fifo" where
  "Pop f = pop_loop (fifo_queue f) f"

section \<open>What the queue implements\<close>

text \<open>
  A list of entries, each a key with the changes that wait for it. A change joins the entry of its
  key, or a new one at the end; joining ignores a \<open>Sync\<close> after a deletion and keeps one of two
  deletions in a row.
\<close>

definition merge_delta :: "delta list \<Rightarrow> delta \<Rightarrow> delta list" where
  "merge_delta ds d = (if is_Sync d \<and> ds \<noteq> [] \<and> is_Deleted (last ds) then ds else dedupDeltas (ds @ [d]))"

fun join_entry :: "('d \<Rightarrow> 'k) \<Rightarrow> ('d list \<Rightarrow> 'd \<Rightarrow> 'd list) \<Rightarrow> 'd \<Rightarrow> ('k \<times> 'd list) list \<Rightarrow> ('k \<times> 'd list) list" where
  "join_entry key merge d [] = [(key d, merge [] d)]"
| "join_entry key merge d ((k, ds) # es) =
     (if k = key d then (k, merge ds d) # es else (k, ds) # join_entry key merge d es)"

definition entries :: "fifo \<Rightarrow> (string \<times> delta list) list" where
  "entries f = map (\<lambda>k. (k, deltas_at f k)) (fifo_queue f)"

text \<open>
  The property the code depends on: the keys of the items and of the queue are the same, and no item
  is empty. Besides, every change waits under its own key, and a deletion is only followed by a
  change that makes the service again.
\<close>

definition deltas_ok :: "string \<Rightarrow> delta list \<Rightarrow> bool" where
  "deltas_ok k ds \<longleftrightarrow>
     ds \<noteq> [] \<and> (\<forall>d \<in> set ds. KeyOf d = k) \<and>
     successively (\<lambda>a b. is_Deleted a \<longrightarrow> \<not> is_Deleted b \<and> \<not> is_Sync b) ds"

definition fifo_ok :: "fifo \<Rightarrow> bool" where
  "fifo_ok f \<longleftrightarrow>
     distinct (fifo_queue f) \<and> set (fifo_queue f) = dom (fifo_items f) \<and>
     (\<forall>k ds. fifo_items f k = Some ds \<longrightarrow> deltas_ok k ds)"

lemma NewDeltaFIFO_ok [simp]: "fifo_ok NewDeltaFIFO" "entries NewDeltaFIFO = []"
  by (simp_all add: fifo_ok_def NewDeltaFIFO_def entries_def)

lemma fifo_flags [simp]:
  "fifo_ok (f\<lparr>populated := b\<rparr>) = fifo_ok f" "entries (f\<lparr>populated := b\<rparr>) = entries f"
  "fifo_ok (f\<lparr>initialPopulationCount := n\<rparr>) = fifo_ok f" "entries (f\<lparr>initialPopulationCount := n\<rparr>) = entries f"
  "deltas_at (f\<lparr>populated := b\<rparr>) = deltas_at f" "deltas_at (f\<lparr>initialPopulationCount := n\<rparr>) = deltas_at f"
  by (simp_all add: fifo_ok_def entries_def deltas_at_def fun_eq_iff)

subsection \<open>Joining\<close>

lemma isDup_Deleted: "isDup a b = Some out \<Longrightarrow> is_Deleted a \<and> is_Deleted b \<and> (out = a \<or> out = b)"
  by (cases "(a, b)" rule: isDeletionDup.cases) (auto simp: isDup_def split: if_splits)

lemma isDup_None: "isDup a b = None \<longleftrightarrow> \<not> (is_Deleted a \<and> is_Deleted b)"
  by (cases "(a, b)" rule: isDeletionDup.cases) (auto simp: isDup_def)

lemma dedupDeltas_single [simp]: "dedupDeltas [d] = [d]"
  by (simp add: dedupDeltas_def)

lemma dedupDeltas_snoc:
  "dedupDeltas (ds @ [b, a]) = (case isDup a b of Some out \<Rightarrow> ds @ [out] | None \<Rightarrow> ds @ [b, a])"
  by (simp add: dedupDeltas_def nth_append split: option.splits)

lemma merge_delta_cases:
  obtains (new) "ds = []" "merge_delta ds d = [d]"
  | (ignored) ds' b where "ds = ds' @ [b]" "is_Sync d" "is_Deleted b" "merge_delta ds d = ds"
  | (dup) ds' b out where "ds = ds' @ [b]" "is_Deleted d" "is_Deleted b" "out = d \<or> out = b" "merge_delta ds d = ds' @ [out]"
  | (appended) ds' b where "ds = ds' @ [b]" "is_Deleted b \<Longrightarrow> \<not> is_Deleted d \<and> \<not> is_Sync d" "merge_delta ds d = ds @ [d]"
proof (cases ds rule: rev_cases)
  case Nil
  then show ?thesis using new by (simp add: merge_delta_def)
next
  case (snoc ds' b)
  then have merge: "merge_delta ds d = (if is_Sync d \<and> is_Deleted b then ds
      else case isDup d b of Some out \<Rightarrow> ds' @ [out] | None \<Rightarrow> ds @ [d])"
    by (simp add: merge_delta_def dedupDeltas_snoc split: option.splits)
  show ?thesis
  proof (cases "isDup d b")
    case None
    with merge have "if is_Sync d \<and> is_Deleted b then merge_delta ds d = ds else merge_delta ds d = ds @ [d]" by simp
    with None snoc show ?thesis
      using ignored [of ds' b] appended [of ds' b] by (auto simp: isDup_None split: if_splits)
  next
    case (Some out)
    from isDup_Deleted [OF this] have del: "is_Deleted d" "is_Deleted b" "out = d \<or> out = b" by auto
    moreover from this have "\<not> is_Sync d" by (cases d) auto
    ultimately show ?thesis using snoc Some merge dup [of ds' b out] by simp
  qed
qed

lemma merge_delta_ok:
  assumes "ds = [] \<or> deltas_ok k ds" "KeyOf d = k"
  shows "deltas_ok k (merge_delta ds d)"
  using assms
  by (cases ds d rule: merge_delta_cases) (auto simp: deltas_ok_def successively_append_iff)

lemma merge_delta_subset: "set (merge_delta ds d) \<subseteq> insert d (set ds)"
  by (cases ds d rule: merge_delta_cases) auto

lemma merge_delta_last:
  "is_Deleted (last (merge_delta ds d)) \<longleftrightarrow> is_Deleted d \<or> is_Sync d \<and> ds \<noteq> [] \<and> is_Deleted (last ds)"
  by (cases ds d rule: merge_delta_cases; cases d) auto

text \<open>The oldest change stays in front, unless it is a deletion that gives way to another.\<close>

lemma merge_delta_hd:
  "ds \<noteq> [] \<Longrightarrow> \<not> is_Deleted (hd ds) \<Longrightarrow> merge_delta ds d \<noteq> [] \<and> hd (merge_delta ds d) = hd ds"
  by (cases ds d rule: merge_delta_cases; cases ds) (auto simp: hd_append)

subsection \<open>The interface\<close>

text \<open>
  What the informer relies on: pushing a change joins it to the entries, and taking gives the first
  entry as long as there is one.
\<close>

locale delta_queue =
  fixes ok :: "'q \<Rightarrow> bool"
    and view :: "'q \<Rightarrow> ('k \<times> 'd list) list"
    and push :: "'d \<Rightarrow> 'q \<Rightarrow> 'q"
    and pull :: "'q \<Rightarrow> 'd list option \<times> 'q"
    and key :: "'d \<Rightarrow> 'k"
    and merge :: "'d list \<Rightarrow> 'd \<Rightarrow> 'd list"
  assumes push_ok: "ok q \<Longrightarrow> ok (push d q)"
    and push_view: "ok q \<Longrightarrow> view (push d q) = join_entry key merge d (view q)"
    and pull_empty: "ok q \<Longrightarrow> view q = [] \<Longrightarrow> pull q = (None, q)"
    and pull_first: "ok q \<Longrightarrow> view q = (k, ds) # es \<Longrightarrow> fst (pull q) = Some ds \<and> ok (snd (pull q)) \<and> view (snd (pull q)) = es"
begin

lemma pushes:
  "ok q \<Longrightarrow> ok (fold push ds q) \<and> view (fold push ds q) = fold (join_entry key merge) ds (view q)"
  by (induction ds arbitrary: q) (simp_all add: push_ok push_view)

text \<open>Taking as often as there are entries gives them in order and leaves the queue empty.\<close>

lemma pulls_drain:
  "ok q \<Longrightarrow> view (((snd \<circ> pull) ^^ length (view q)) q) = [] \<and>
   (\<forall>i < length (view q). fst (pull (((snd \<circ> pull) ^^ i) q)) = Some (snd (view q ! i)))"
proof (induction "view q" arbitrary: q)
  case (Cons e es)
  obtain k ds where e: "e = (k, ds)" by fastforce
  let ?q = "snd (pull q)"
  have one: "fst (pull q) = Some ds" "ok ?q" "view ?q = es"
    using pull_first [of q k ds es] Cons.prems Cons.hyps(2) e by auto
  note rest = Cons.hyps(1) [OF one(3) [symmetric] one(2)]
  have "fst (pull (((snd \<circ> pull) ^^ i) q)) = Some (snd ((e # es) ! i))" if "i < Suc (length es)" for i
    using that one(1) rest one(3) e by (cases i) (simp_all add: funpow_swap1 [symmetric] funpow_Suc_right del: funpow.simps)
  then show ?case using rest one(3) Cons.hyps(2) [symmetric] by (simp add: funpow_Suc_right del: funpow.simps)
qed simp

end

subsection \<open>The queue implements it\<close>

lemma dedupDeltas_nonempty [simp]: "dedupDeltas (ds @ [d]) \<noteq> []"
  by (simp add: dedupDeltas_def Let_def split: option.splits)

lemma willObjectBeDeleted_last: "willObjectBeDeleted f k \<longleftrightarrow> deltas_at f k \<noteq> [] \<and> is_Deleted (last (deltas_at f k))"
  by (auto simp: willObjectBeDeleted_def Let_def last_conv_nth)

text \<open>The changes of a key after an action; no other key is concerned.\<close>

lemma queueAction_fields:
  assumes "fifo_ok f"
  shows "fifo_items (queueAction d f) = (fifo_items f)(KeyOf d \<mapsto> merge_delta (deltas_at f (KeyOf d)) d)"
    and "fifo_queue (queueAction d f) = (if KeyOf d \<in> dom (fifo_items f) then fifo_queue f else fifo_queue f @ [KeyOf d])"
    and "populated (queueAction d f) = populated f"
    and "initialPopulationCount (queueAction d f) = initialPopulationCount f"
  using assms
  by (auto simp: queueAction_def Let_def merge_delta_def willObjectBeDeleted_last deltas_at_def split: option.splits)

lemma deltas_at_ok: "fifo_ok f \<Longrightarrow> deltas_at f k = [] \<or> deltas_ok k (deltas_at f k)"
  by (auto simp: fifo_ok_def deltas_at_def split: option.splits)

lemma deltas_at_empty: "fifo_ok f \<Longrightarrow> deltas_at f k = [] \<longleftrightarrow> k \<notin> dom (fifo_items f)"
  by (auto simp: fifo_ok_def deltas_at_def deltas_ok_def split: option.splits)

lemma no_entries: "fifo_ok f \<Longrightarrow> entries f = [] \<Longrightarrow> deltas_at f k = []"
  by (auto simp: fifo_ok_def deltas_at_def entries_def split: option.splits)

lemma deltas_at_queueAction:
  "fifo_ok f \<Longrightarrow> deltas_at (queueAction d f) = (deltas_at f)(KeyOf d := merge_delta (deltas_at f (KeyOf d)) d)"
  by (simp add: deltas_at_def queueAction_fields fun_eq_iff)

lemma queueAction_ok:
  assumes "fifo_ok f"
  shows "fifo_ok (queueAction d f)"
  using assms merge_delta_ok [OF deltas_at_ok [OF assms, of "KeyOf d"]]
  unfolding fifo_ok_def [of "queueAction d f"] queueAction_fields [OF assms]
  by (auto simp: fifo_ok_def)

lemma join_entry_inside:
  "distinct q \<Longrightarrow> key d \<in> set q \<Longrightarrow>
   join_entry key merge d (map (\<lambda>k. (k, g k)) q) = map (\<lambda>k. (k, (g(key d := merge (g (key d)) d)) k)) q"
  by (induction q) auto

lemma join_entry_outside: "key d \<notin> fst ` set es \<Longrightarrow> join_entry key merge d es = es @ [(key d, merge [] d)]"
  by (induction es) auto

lemma entries_queueAction:
  assumes "fifo_ok f"
  shows "entries (queueAction d f) = join_entry KeyOf merge_delta d (entries f)"
proof (cases "KeyOf d \<in> dom (fifo_items f)")
  case True
  with assms show ?thesis
    by (simp add: entries_def queueAction_fields deltas_at_queueAction fifo_ok_def join_entry_inside)
next
  case False
  with assms have fresh: "KeyOf d \<notin> set (fifo_queue f)" "deltas_at f (KeyOf d) = []"
    by (simp_all add: fifo_ok_def deltas_at_empty)
  then have "join_entry KeyOf merge_delta d (entries f) = entries f @ [(KeyOf d, merge_delta [] d)]"
    by (intro join_entry_outside) (auto simp: entries_def)
  with assms False fresh show ?thesis
    by (auto simp: entries_def queueAction_fields deltas_at_queueAction)
qed

lemma Pop_empty: "entries f = [] \<Longrightarrow> Pop f = (None, f)"
  by (simp add: Pop_def entries_def)

lemma Pop_first:
  assumes "fifo_ok f" "entries f = (k, ds) # es"
  shows "\<exists>f'. Pop f = (Some ds, f') \<and> fifo_ok f' \<and> entries f' = es \<and> populated f' = populated f \<and>
    initialPopulationCount f' = initialPopulationCount f - 1 \<and> fifo_items f' = (fifo_items f)(k := None)"
proof -
  from assms(2) obtain q where q: "fifo_queue f = k # q" "ds = deltas_at f k" "es = map (\<lambda>k. (k, deltas_at f k)) q"
    by (auto simp: entries_def)
  with assms(1) have "fifo_items f k = Some ds" by (auto simp: fifo_ok_def deltas_at_def split: option.splits)
  with q assms(1) show ?thesis by (auto simp: Pop_def Let_def fifo_ok_def entries_def deltas_at_def)
qed

interpretation fifo: delta_queue fifo_ok entries queueAction Pop KeyOf merge_delta
proof
  fix f k ds es
  assume "fifo_ok f" "entries f = (k, ds) # es"
  from Pop_first [OF this] show "fst (Pop f) = Some ds \<and> fifo_ok (snd (Pop f)) \<and> entries (snd (Pop f)) = es" by auto
qed (simp_all add: queueAction_ok entries_queueAction Pop_empty)

section \<open>The reflector\<close>

text \<open>
  What the reflector does to the queue: the listing at the start of \<^verbatim>\<open>ListAndWatch\<close> and after every
  broken watch, the events of a watch, and the periodic resync. A listing and a resync carry the keys
  of the store in the order in which Go lists them.
\<close>

datatype reflection =
    Listing "string list" "service list"
  | WatchAdded service
  | WatchModified service
  | WatchDeleted service
  | Resyncing "string list"

fun reflect :: "(string \<rightharpoonup> service) \<Rightarrow> reflection \<Rightarrow> fifo \<Rightarrow> fifo" where
  "reflect store (Listing known found) f = Replace known store found f"
| "reflect store (WatchAdded svc) f = fifo_Add svc f"
| "reflect store (WatchModified svc) f = fifo_Update svc f"
| "reflect store (WatchDeleted svc) f = fifo_Delete store (DeletedObject svc) f"
| "reflect store (Resyncing known) f = Resync known store f"

text \<open>The changes an action of the reflector amounts to.\<close>

fun changes :: "(string \<rightharpoonup> service) \<Rightarrow> fifo \<Rightarrow> reflection \<Rightarrow> delta list" where
  "changes store f (Listing known found) =
     map Sync found @
     map (\<lambda>k. Deleted (DeletedFinalStateUnknown k (store k))) (filter (\<lambda>k. k \<notin> meta_key ` set found) known)"
| "changes store f (WatchAdded svc) = [Added svc]"
| "changes store f (WatchModified svc) = [Updated svc]"
| "changes store f (WatchDeleted svc) =
     (if meta_key svc \<in> dom store \<union> dom (fifo_items f) then [Deleted (DeletedObject svc)] else [])"
| "changes store f (Resyncing known) = map Sync (List.map_filter store known)"

text \<open>How the flags behind \<^verbatim>\<open>HasSynced\<close> change.\<close>

fun flagged :: "reflection \<Rightarrow> fifo \<Rightarrow> fifo" where
  "flagged (Listing known found) f =
     (if populated f then f else f\<lparr>populated := True, initialPopulationCount := length found\<rparr>)"
| "flagged (Resyncing known) f = f"
| "flagged _ f = f\<lparr>populated := True\<rparr>"

lemma flagged_same [simp]:
  "fifo_items (flagged r f) = fifo_items f" "fifo_queue (flagged r f) = fifo_queue f"
  "deltas_at (flagged r f) = deltas_at f" "entries (flagged r f) = entries f" "fifo_ok (flagged r f) = fifo_ok f"
  by (cases "(r, f)" rule: flagged.cases; simp)+

lemma flagged_populated:
  "populated f \<Longrightarrow> populated (flagged r f) = populated f"
  "populated f \<Longrightarrow> initialPopulationCount (flagged r f) = initialPopulationCount f"
  by (cases "(r, f)" rule: flagged.cases; simp)+

lemma fold_unless: "fold (\<lambda>k. if P k then id else g k) xs s = fold g (filter (\<lambda>k. \<not> P k) xs) s"
  by (induction xs arbitrary: s) auto

lemma map_filter_ran: "set (List.map_filter m xs) \<subseteq> ran m"
  by (induction xs) (auto simp: map_filter_simps ran_def split: option.splits)

lemma fold_known: "fold (\<lambda>k. case m k of Some x \<Rightarrow> g x | None \<Rightarrow> id) xs s = fold g (List.map_filter m xs) s"
  by (induction xs arbitrary: s) (auto simp: map_filter_simps split: option.splits)

lemma reflect_pushes: "reflect store r f = fold queueAction (changes store f r) (flagged r f)"
  by (cases r)
    (auto simp: Replace_def Resync_def fifo_Add_def fifo_Update_def fifo_Delete_def fold_unless fold_known
      fold_map comp_def Let_def domIff)

lemma pushes_flags:
  "fifo_ok f \<Longrightarrow> populated (fold queueAction ds f) = populated f \<and>
     initialPopulationCount (fold queueAction ds f) = initialPopulationCount f"
  by (induction ds arbitrary: f) (simp_all add: queueAction_fields queueAction_ok)

lemma reflect_ok: "fifo_ok f \<Longrightarrow> fifo_ok (reflect store r f)"
  using fifo.pushes [of "flagged r f"] by (simp add: reflect_pushes)

lemma entries_reflect:
  "fifo_ok f \<Longrightarrow> entries (reflect store r f) = fold (join_entry KeyOf merge_delta) (changes store f r) (entries f)"
  using fifo.pushes [of "flagged r f"] by (simp add: reflect_pushes)

text \<open>
  C24: the queue is what its comments say. Every action of the reflector keeps the keys of the items
  and of the queue the same, with no empty item, and amounts to joining its changes one by one to a
  list of entries; \<^verbatim>\<open>Pop\<close> takes the first entry of that list and waits only when there is none.
\<close>

theorem fifo_refines:
  assumes "fifo_ok f"
  shows "fifo_ok (reflect store r f) \<and>
    entries (reflect store r f) = fold (join_entry KeyOf merge_delta) (changes store f r) (entries f) \<and>
    (case entries f of
       [] \<Rightarrow> Pop f = (None, f)
     | (k, ds) # es \<Rightarrow> \<exists>f'. Pop f = (Some ds, f') \<and> fifo_ok f' \<and> entries f' = es)"
  using assms Pop_first [OF assms]
  by (auto simp: reflect_ok entries_reflect Pop_empty split: list.splits prod.splits)

section \<open>Which services the informer will know\<close>

text \<open>
  Once everything that waits has been processed, the store holds a key exactly when the newest change
  that waits for it is no deletion, or nothing waits and the store holds it already.
\<close>

definition will_know :: "(string \<rightharpoonup> service) \<Rightarrow> fifo \<Rightarrow> string \<Rightarrow> bool" where
  "will_know store f k \<longleftrightarrow> (if deltas_at f k = [] then k \<in> dom store else \<not> is_Deleted (last (deltas_at f k)))"

definition pending :: "fifo \<Rightarrow> string \<Rightarrow> bool" where
  "pending f k \<longleftrightarrow> deltas_at f k \<noteq> [] \<and> \<not> is_Deleted (last (deltas_at f k))"

lemma merge_delta_nonempty [simp]: "merge_delta ds d \<noteq> []"
  by (cases ds d rule: merge_delta_cases) auto

lemma will_know_queueAction:
  "fifo_ok f \<Longrightarrow> will_know store (queueAction d f) k \<longleftrightarrow>
     (if k = KeyOf d then \<not> is_Deleted d \<and> \<not> (is_Sync d \<and> willObjectBeDeleted f k) else will_know store f k)"
  by (auto simp: will_know_def deltas_at_queueAction merge_delta_last willObjectBeDeleted_last)

lemma will_delete_queueAction:
  "fifo_ok f \<Longrightarrow> willObjectBeDeleted (queueAction d f) k \<longleftrightarrow>
     (if k = KeyOf d then is_Deleted d \<or> is_Sync d \<and> willObjectBeDeleted f k else willObjectBeDeleted f k)"
  by (auto simp: deltas_at_queueAction merge_delta_last willObjectBeDeleted_last)

lemma will_know_syncs:
  "fifo_ok f \<Longrightarrow> will_know store (fold queueAction (map Sync found) f) k \<longleftrightarrow>
     (if k \<in> meta_key ` set found then \<not> willObjectBeDeleted f k else will_know store f k)"
  by (induction found arbitrary: f)
    (auto simp: queueAction_ok will_know_queueAction will_delete_queueAction)

lemma will_know_markers:
  "fifo_ok f \<Longrightarrow>
   will_know store (fold queueAction (map (\<lambda>k. Deleted (DeletedFinalStateUnknown k (g k))) ks) f) k \<longleftrightarrow>
     k \<notin> set ks \<and> will_know store f k"
  by (induction ks arbitrary: f) (auto simp: queueAction_ok will_know_queueAction)

text \<open>
  The exact outcome of a listing. A listed service will be known unless a deletion of it waits (the
  \<open>Sync\<close> is then ignored); a service that is not listed will be known only when it waits and is not
  in the store yet, since markers are only made for keys of the store.
\<close>

lemma will_know_Replace:
  assumes "fifo_ok f" "set known = dom store"
  shows "will_know store (Replace known store found f) k \<longleftrightarrow>
    (if k \<in> meta_key ` set found then \<not> willObjectBeDeleted f k else k \<notin> dom store \<and> pending f k)"
proof -
  let ?f = "flagged (Listing known found) f"
  let ?f1 = "fold queueAction (map Sync found) ?f"
  have ok: "fifo_ok ?f" "fifo_ok ?f1" using assms(1) fifo.pushes [of ?f] by simp_all
  have same: "willObjectBeDeleted ?f k = willObjectBeDeleted f k" "will_know store ?f k = will_know store f k"
    by (simp_all add: willObjectBeDeleted_last will_know_def)
  show ?thesis
    using reflect_pushes [of store "Listing known found" f] will_know_markers [OF ok(2)] will_know_syncs [OF ok(1)] assms(2)
    by (auto simp: same will_know_def [of store f] pending_def simp del: flagged.simps)
qed

section \<open>What waits stays\<close>

text \<open>
  However the queue grows, an entry keeps its place, and its oldest change stays in front unless it
  is a deletion.
\<close>

abbreviation waiting :: "fifo \<Rightarrow> delta list list" where
  "waiting f \<equiv> map snd (entries f)"

definition kept :: "delta list \<Rightarrow> delta list \<Rightarrow> bool" where
  "kept ds ds' \<longleftrightarrow> (ds \<noteq> [] \<and> \<not> is_Deleted (hd ds) \<longrightarrow> ds' \<noteq> [] \<and> hd ds' = hd ds)"

definition grown :: "delta list list \<Rightarrow> delta list list \<Rightarrow> bool" where
  "grown q q' \<longleftrightarrow> (\<exists>p r. q' = p @ r \<and> list_all2 kept q p)"

lemma kept_refl [simp]: "kept ds ds"
  by (simp add: kept_def)

lemma grown_refl [simp]: "grown q q"
  unfolding grown_def by (intro exI [of _ q] exI [of _ "[]"]) (simp add: list_all2_refl)

lemma grown_trans:
  assumes "grown p q" "grown q r"
  shows "grown p r"
proof -
  from assms obtain q1 q2 r1 r2 where q: "q = q1 @ q2" "list_all2 kept p q1" and r: "r = r1 @ r2" "list_all2 kept q r1"
    by (auto simp: grown_def)
  from r(2) q(1) obtain s1 s2 where s: "r1 = s1 @ s2" "list_all2 kept q1 s1" by (auto simp: list_all2_append1)
  have "kept x z" if "kept x y" "kept y z" for x y z using that by (auto simp: kept_def)
  with q(2) s(2) have "list_all2 kept p s1" by (rule list_all2_trans [rotated])
  with r(1) s(1) show ?thesis by (auto simp: grown_def)
qed

lemma kept_merge: "kept ds (merge_delta ds d)"
  using merge_delta_hd by (auto simp: kept_def)

lemma grown_join: "grown (map snd es) (map snd (join_entry KeyOf merge_delta d es))"
proof (induction es)
  case (Cons e es)
  then obtain p r where "map snd (join_entry KeyOf merge_delta d es) = p @ r" "list_all2 kept (map snd es) p"
    by (auto simp: grown_def)
  then have "grown (ds # map snd es) (ds # map snd (join_entry KeyOf merge_delta d es))" for ds
    unfolding grown_def by (intro exI [of _ "ds # p"] exI [of _ r]) simp
  moreover have "grown (ds # map snd es) (merge_delta ds d # map snd es)" for ds
    unfolding grown_def
    by (intro exI [of _ "merge_delta ds d # map snd es"] exI [of _ "[]"]) (simp add: kept_merge list_all2_refl)
  ultimately show ?case by (cases e) simp
qed (simp add: grown_def)

lemma grown_reflect:
  assumes "fifo_ok f"
  shows "grown (waiting f) (waiting (reflect store r f))"
proof -
  have "grown (map snd es) (map snd (fold (join_entry KeyOf merge_delta) ds es))" for ds es
    by (induction ds arbitrary: es) (auto intro: grown_trans grown_join)
  with assms show ?thesis by (simp add: entries_reflect)
qed

text \<open>Every change that waits has waited before or was made by the action.\<close>

lemma reflect_changes:
  assumes "fifo_ok f" "d \<in> set (concat (waiting (reflect store r f)))"
  shows "d \<in> set (concat (waiting f)) \<or> d \<in> set (changes store f r)"
proof -
  have join: "set (concat (map snd (join_entry KeyOf merge_delta c es))) \<subseteq> insert c (set (concat (map snd es)))" for c es
    using merge_delta_subset by (induction es) (fastforce split: prod.splits if_splits)+
  have "set (concat (map snd (fold (join_entry KeyOf merge_delta) cs es))) \<subseteq> set cs \<union> set (concat (map snd es))" for cs es
  proof (induction cs arbitrary: es)
    case (Cons c cs)
    from Cons [of "join_entry KeyOf merge_delta c es"] join [of c es] show ?case by auto
  qed simp
  from this [of "changes store f r" "entries f"] assms show ?thesis by (auto simp: entries_reflect)
qed

text \<open>The first listing makes one entry per service, in order.\<close>

lemma first_listing:
  assumes "distinct (map meta_key found)"
  shows "entries (reflect Map.empty (Listing [] found) NewDeltaFIFO) = map (\<lambda>svc. (meta_key svc, [Sync svc])) found"
proof -
  have "fold (join_entry KeyOf merge_delta) (map Sync found) [] = map (\<lambda>svc. (meta_key svc, [Sync svc])) found"
    using assms
  proof (induction found rule: rev_induct)
    case (snoc svc found)
    then have "meta_key svc \<notin> fst ` set (map (\<lambda>svc. (meta_key svc, [Sync svc])) found)" by force
    with snoc join_entry_outside [of KeyOf "Sync svc"] show ?case by (simp add: merge_delta_def)
  qed simp
  then show ?thesis using entries_reflect [OF NewDeltaFIFO_ok(1), of Map.empty "Listing [] found"] by simp
qed

lemma reflect_flags:
  assumes "fifo_ok f"
  shows "populated (reflect store r f) = populated (flagged r f)"
    and "initialPopulationCount (reflect store r f) = initialPopulationCount (flagged r f)"
  using pushes_flags [of "flagged r f" "changes store f r"] assms by (simp_all add: reflect_pushes)

section \<open>An example\<close>

text \<open>A listed service is changed before the loop has taken it: both changes wait in one entry.\<close>

definition listed_fifo :: fifo where
  "listed_fifo = reflect Map.empty (Listing [] [example_service]) NewDeltaFIFO"

lemma listed_fifo_facts: "fifo_ok listed_fifo" "entries listed_fifo = [(meta_key example_service, [Sync example_service])]"
proof -
  show "fifo_ok listed_fifo" unfolding listed_fifo_def by (rule reflect_ok) simp
  show "entries listed_fifo = [(meta_key example_service, [Sync example_service])]"
    unfolding listed_fifo_def using first_listing [of "[example_service]"] by simp
qed

theorem fifo_refines_witness:
  "entries (reflect Map.empty (WatchModified example_service) listed_fifo) =
     [(meta_key example_service, [Sync example_service, Updated example_service])] \<and>
   (\<exists>f'. Pop listed_fifo = (Some [Sync example_service], f') \<and> entries f' = [])"
  using fifo_refines [OF listed_fifo_facts(1), of Map.empty "WatchModified example_service"] listed_fifo_facts(2)
  by (auto simp: merge_delta_def dedupDeltas_def isDup_def simp del: reflect.simps)

end
