(* ===== verification/Informer.thy ===== *)
theory Informer
  imports Confinement DeltaFifo
begin

text \<open>
  How the handlers are called: the informer that \<^verbatim>\<open>NewController\<close> makes
  (\<^verbatim>\<open>framework.NewInformer\<close>) keeps a store of the services it has seen and a queue of changes, and a
  single loop takes the changes of one service at a time from the queue. The loop is a step
  relation; its runs refine a machine that only knows which objects may change.
\<close>

section \<open>The informer\<close>

record 'w informer =
  in_store :: "string \<rightharpoonup> service"
  in_strategy :: strategy
  in_world :: 'w

text \<open>
  The store is changed before the handler runs; it holds the object the handler is given, so it
  sees what the handler does to it.
\<close>

definition deliver ::
  "('w, 'b) client \<Rightarrow> 'w oclient \<Rightarrow> 'b golib \<Rightarrow> yaml_lib \<Rightarrow> controller \<Rightarrow> service \<Rightarrow> 'w informer \<Rightarrow>
   unit outcome \<times> 'w informer" where
  "deliver K OC L Y C svc s =
     (case (case in_store s (meta_key svc) of
              Some old \<Rightarrow> UpdateFunc K OC L Y C old svc (in_strategy s) (in_world s)
            | None \<Rightarrow> AddFunc K OC L Y C svc (in_strategy s) (in_world s)) of
        (r, svc', st', w') \<Rightarrow>
          (r, \<lparr>in_store = (in_store s)(meta_key svc \<mapsto> svc'), in_strategy = st', in_world = w'\<rparr>))"

fun process_delta ::
  "('w, 'b) client \<Rightarrow> 'w oclient \<Rightarrow> 'b golib \<Rightarrow> yaml_lib \<Rightarrow> controller \<Rightarrow> delta \<Rightarrow> 'w informer \<Rightarrow>
   unit outcome \<times> 'w informer" where
  "process_delta K OC L Y C (Sync svc) s = deliver K OC L Y C svc s"
| "process_delta K OC L Y C (Added svc) s = deliver K OC L Y C svc s"
| "process_delta K OC L Y C (Updated svc) s = deliver K OC L Y C svc s"
| "process_delta K OC L Y C (Deleted obj) s =
     (case DeleteFunc K OC L C obj (in_strategy s) (in_world s) of
        (r, st', w') \<Rightarrow>
          (r, \<lparr>in_store = (in_store s)(deleted_key obj := None), in_strategy = st', in_world = w'\<rparr>))"

text \<open>The changes of one service, from oldest to newest; a panic ends the loop over them.\<close>

fun Process ::
  "('w, 'b) client \<Rightarrow> 'w oclient \<Rightarrow> 'b golib \<Rightarrow> yaml_lib \<Rightarrow> controller \<Rightarrow> delta list \<Rightarrow> 'w informer \<Rightarrow>
   unit outcome \<times> 'w informer" where
  "Process K OC L Y C [] s = (Ok (), s)"
| "Process K OC L Y C (d # ds) s =
     (case process_delta K OC L Y C d s of
        (Panic p, s') \<Rightarrow> (Panic p, s')
      | (_, s') \<Rightarrow> Process K OC L Y C ds s')"


text \<open>The loop around \<^verbatim>\<open>Pop\<close>, until it has to wait or a handler panics.\<close>

lemma pop_loop_shorter: "pop_loop q f = (Some ds, f') \<Longrightarrow> length (fifo_queue f') < length q"
  by (induction q f rule: pop_loop.induct) (auto simp: Let_def split: option.splits)

function processLoop ::
  "('w, 'b) client \<Rightarrow> 'w oclient \<Rightarrow> 'b golib \<Rightarrow> yaml_lib \<Rightarrow> controller \<Rightarrow> fifo \<Rightarrow> 'w informer \<Rightarrow>
   unit outcome \<times> fifo \<times> 'w informer" where
  "processLoop K OC L Y C f s =
     (case Pop f of
        (None, f') \<Rightarrow> (Ok (), f', s)
      | (Some ds, f') \<Rightarrow>
          (case Process K OC L Y C ds s of
             (Panic p, s') \<Rightarrow> (Panic p, f', s')
           | (_, s') \<Rightarrow> processLoop K OC L Y C f' s'))"
  by pat_completeness auto
termination
  by (relation "measure (\<lambda>(K, OC, L, Y, C, f, s). length (fifo_queue f))") (auto simp: Pop_def dest: sym pop_loop_shorter)

declare processLoop.simps [simp del]

lemma processLoop_waits: "entries f = [] \<Longrightarrow> processLoop K OC L Y C f s = (Ok (), f, s)"
  by (simp add: processLoop.simps Pop_empty)

lemma processLoop_pops:
  "Pop f = (Some ds, f') \<Longrightarrow> Process K OC L Y C ds s = (r, s') \<Longrightarrow>
   processLoop K OC L Y C f s = (case r of Panic p \<Rightarrow> (Panic p, f', s') | _ \<Rightarrow> processLoop K OC L Y C f' s')"
  by (simp add: processLoop.simps [of K OC L Y C f s] split: outcome.splits)

subsection \<open>What the store holds afterwards\<close>

lemma deliver_dom: "deliver K OC L Y C svc s = (r, s') \<Longrightarrow> dom (in_store s') = insert (meta_key svc) (dom (in_store s))"
  by (auto simp: deliver_def split: prod.splits)

lemma process_delta_dom:
  "process_delta K OC L Y C d s = (r, s') \<Longrightarrow>
   dom (in_store s') = (if is_Deleted d then dom (in_store s) - {KeyOf d} else insert (KeyOf d) (dom (in_store s)))"
proof (cases d)
  case (Deleted obj)
  moreover assume "process_delta K OC L Y C d s = (r, s')"
  ultimately have "in_store s' = (in_store s)(deleted_key obj := None)" by (auto split: prod.splits)
  with Deleted show ?thesis by simp
qed (auto simp: deliver_dom)

lemma Process_dom:
  assumes "Process K OC L Y C ds s = (r, s')" "\<nexists>p. r = Panic p" "\<forall>d \<in> set ds. KeyOf d = k" "ds \<noteq> []"
  shows "dom (in_store s') = (if is_Deleted (last ds) then dom (in_store s) - {k} else insert k (dom (in_store s)))"
  using assms
proof (induction ds arbitrary: s)
  case (Cons d ds)
  obtain r1 s1 where d: "process_delta K OC L Y C d s = (r1, s1)" by fastforce
  with Cons.prems(1,2) have rest: "Process K OC L Y C ds s1 = (r, s')" by (cases r1) auto
  show ?case
  proof (cases "ds = []")
    case True
    with rest process_delta_dom [OF d] Cons.prems(3) show ?thesis by auto
  next
    case False
    from Cons.IH [OF rest Cons.prems(2) _ this] False process_delta_dom [OF d] Cons.prems(3) show ?thesis by auto
  qed
qed simp

lemma will_know_Pop:
  assumes "fifo_ok f" "entries f = (k, ds) # es" "fifo_items f' = (fifo_items f)(k := None)"
    "dom store' = (if is_Deleted (last ds) then dom store - {k} else insert k (dom store))"
  shows "will_know store' f' k' \<longleftrightarrow> will_know store f k'"
proof -
  from assms(1,2) have "deltas_at f k = ds" "ds \<noteq> []" using deltas_at_empty [OF assms(1), of k]
    by (auto simp: entries_def fifo_ok_def)
  with assms(3,4) show ?thesis by (auto simp: will_know_def deltas_at_def)
qed

lemma processLoop_store:
  assumes "processLoop K OC L Y C f s = (Ok (), f', s')" "fifo_ok f"
  shows "fifo_ok f' \<and> entries f' = [] \<and> dom (in_store s') = {k. will_know (in_store s) f k}"
  using assms
proof (induction K OC L Y C f s rule: processLoop.induct)
  case (1 K OC L Y C f s)
  note IH = "1.IH" and prems = "1.prems"
  show ?case
  proof (cases "entries f")
    case Nil
    have "deltas_at f k = []" for k using no_entries [OF prems(2) Nil] .
    with Nil prems show ?thesis by (auto simp: processLoop_waits will_know_def)
  next
    case (Cons e es)
    obtain k ds where e: "e = (k, ds)" by fastforce
    from Pop_first [OF prems(2)] Cons e obtain f1 where
      pop: "Pop f = (Some ds, f1)" "fifo_ok f1" "fifo_items f1 = (fifo_items f)(k := None)" by blast
    obtain r s1 where proc: "Process K OC L Y C ds s = (r, s1)" by fastforce
    note unfold = processLoop_pops [OF pop(1) proc]
    from prems(1) unfold have r: "\<nexists>p. r = Panic p" by auto
    with prems(1) unfold have loop: "processLoop K OC L Y C f1 s1 = (Ok (), f', s')" by (cases r) auto
    have "deltas_ok k ds" using deltas_at_ok [OF prems(2), of k] deltas_at_empty [OF prems(2), of k] Cons e prems(2)
      by (auto simp: entries_def fifo_ok_def)
    with Process_dom [OF proc r, of k]
    have "dom (in_store s1) = (if is_Deleted (last ds) then dom (in_store s) - {k} else insert k (dom (in_store s)))"
      by (simp add: deltas_ok_def)
    note know = will_know_Pop [OF prems(2) _ pop(3) this]
    have "fifo_ok f' \<and> entries f' = [] \<and> dom (in_store s') = {k. will_know (in_store s1) f1 k}"
      using IH pop(1,2) proc r loop by (cases r) (metis prod.sel)+
    with know Cons e show ?thesis by simp
  qed
qed

text \<open>
  C23: the informer after a new listing. When the loop has worked off the queue without a panic, the
  store holds exactly the listed services, except that a listed service is missing when its deletion
  was still waiting at the time of the listing (it was deleted and made again in between), and that
  a service that has gone is kept when it was waiting and not yet in the store. With an empty queue
  the store is exact.
\<close>

theorem relist_converges:
  assumes "fifo_ok f" "set known = dom (in_store s)"
    and "processLoop K OC L Y C (Replace known (in_store s) found f) s = (Ok (), f', s')"
  shows "dom (in_store s') =
      {k. if k \<in> meta_key ` set found then \<not> willObjectBeDeleted f k else k \<notin> dom (in_store s) \<and> pending f k} \<and>
    (if entries f = [] then dom (in_store s') = meta_key ` set found else True) \<and> entries f' = []"
proof -
  have ok: "fifo_ok (Replace known (in_store s) found f)"
    using reflect_ok [OF assms(1), of "in_store s" "Listing known found"] by simp
  note none = no_entries [OF assms(1)]
  from processLoop_store [OF assms(3) ok] will_know_Replace [OF assms(1,2)]
  have "entries f' = []" "dom (in_store s') =
      {k. if k \<in> meta_key ` set found then \<not> willObjectBeDeleted f k else k \<notin> dom (in_store s) \<and> pending f k}" by simp_all
  moreover from this none have "dom (in_store s') = meta_key ` set found" if "entries f = []"
    using that by (auto simp: willObjectBeDeleted_last pending_def)
  ultimately show ?thesis by simp
qed

section \<open>The loop as a step relation\<close>

text \<open>
  The services a list or watch of the namespace \<open>ns\<close> answers with (all namespaces for the empty
  name): the server stores services in a namespace, and names have no slash.
\<close>

definition served :: "string \<Rightarrow> service \<Rightarrow> bool" where
  "served ns svc \<longleftrightarrow>
     Namespace svc \<noteq> '''' \<and> CHR ''/'' \<notin> set (Namespace svc) \<and> CHR ''/'' \<notin> set (Name svc) \<and>
     (ns = '''' \<or> Namespace svc = ns)"

text \<open>
  The changes that may arrive at the queue: services the server answered with, stored services that are
  queued again, and deletion markers for keys of the store.
\<close>

fun from_watch :: "string \<Rightarrow> (string \<rightharpoonup> service) \<Rightarrow> delta \<Rightarrow> bool" where
  "from_watch ns store (Sync svc) \<longleftrightarrow> served ns svc \<or> svc \<in> ran store"
| "from_watch ns store (Added svc) \<longleftrightarrow> served ns svc"
| "from_watch ns store (Updated svc) \<longleftrightarrow> served ns svc"
| "from_watch ns store (Deleted (DeletedObject svc)) \<longleftrightarrow> served ns svc"
| "from_watch ns store (Deleted (DeletedFinalStateUnknown key _)) \<longleftrightarrow> key \<in> dom store"

text \<open>
  What the reflector may see: listings and events with services of the namespace, each listed once,
  and the keys of the store in some order. The changes this makes come from the watch.
\<close>

fun observed :: "string \<Rightarrow> (string \<rightharpoonup> service) \<Rightarrow> reflection \<Rightarrow> bool" where
  "observed ns store (Listing known found) \<longleftrightarrow>
     distinct known \<and> set known = dom store \<and> list_all (served ns) found \<and> distinct (map meta_key found)"
| "observed ns store (WatchAdded svc) \<longleftrightarrow> served ns svc"
| "observed ns store (WatchModified svc) \<longleftrightarrow> served ns svc"
| "observed ns store (WatchDeleted svc) \<longleftrightarrow> served ns svc"
| "observed ns store (Resyncing known) \<longleftrightarrow> distinct known \<and> set known = dom store"

lemma observed_changes: "observed ns store r \<Longrightarrow> d \<in> set (changes store f r) \<Longrightarrow> from_watch ns store d"
  by (cases r) (auto simp: list_all_iff dest: subsetD [OF map_filter_ran] split: if_splits)

record 'w system = "'w informer" +
  queue :: "delta list list"

text \<open>
  The queue seen as a list of entries. The reflector puts changes from the server into it, where they
  join those waiting for the same service or are merged with them, in whatever way; a marker for a
  vanished service has a key of the store. The loop takes the first entry; whether the handlers
  return or panic (the panic is recovered and the loop starts again), the entry is gone.
\<close>

definition informer_of :: "'w system \<Rightarrow> 'w informer" where
  "informer_of s = \<lparr>in_store = in_store s, in_strategy = in_strategy s, in_world = in_world s\<rparr>"

definition with_queue :: "'w informer \<Rightarrow> delta list list \<Rightarrow> 'w system" where
  "with_queue i q = \<lparr>in_store = in_store i, in_strategy = in_strategy i, in_world = in_world i, queue = q\<rparr>"

inductive pop_step ::
  "('w, 'b) client \<Rightarrow> 'w oclient \<Rightarrow> 'b golib \<Rightarrow> yaml_lib \<Rightarrow> controller \<Rightarrow> 'w system \<Rightarrow> 'w system \<Rightarrow> bool"
  for K OC L Y C where
  pop: "queue s = ds # q \<Longrightarrow> pop_step K OC L Y C s (with_queue (snd (Process K OC L Y C ds (informer_of s))) q)"

inductive system_step ::
  "('w, 'b) client \<Rightarrow> 'w oclient \<Rightarrow> 'b golib \<Rightarrow> yaml_lib \<Rightarrow> controller \<Rightarrow> string \<Rightarrow> 'w system \<Rightarrow> 'w system \<Rightarrow> bool"
  for K OC L Y C ns where
  reflect: "(\<And>d. d \<in> set (concat q) \<Longrightarrow> d \<in> set (concat (queue s)) \<or> from_watch ns (in_store s) d) \<Longrightarrow>
    system_step K OC L Y C ns s (s\<lparr>queue := q\<rparr>)"
| process: "pop_step K OC L Y C s s' \<Longrightarrow> system_step K OC L Y C ns s s'"

inductive_cases pop_stepE: "pop_step K OC L Y C s s'"
inductive_cases system_stepE: "system_step K OC L Y C ns s s'"

inductive_simps pop_step_iff: "pop_step K OC L Y C s s'"

section \<open>The invariant\<close>

text \<open>The store holds every service under its key; every change in the queue names a watched service.\<close>

definition store_ok :: "string \<Rightarrow> (string \<rightharpoonup> service) \<Rightarrow> bool" where
  "store_ok ns store \<longleftrightarrow> (\<forall>k svc. store k = Some svc \<longrightarrow> k = meta_key svc \<and> served ns svc)"

fun delta_ok :: "string \<Rightarrow> delta \<Rightarrow> bool" where
  "delta_ok ns (Sync svc) \<longleftrightarrow> served ns svc"
| "delta_ok ns (Added svc) \<longleftrightarrow> served ns svc"
| "delta_ok ns (Updated svc) \<longleftrightarrow> served ns svc"
| "delta_ok ns (Deleted (DeletedObject svc)) \<longleftrightarrow> served ns svc"
| "delta_ok ns (Deleted (DeletedFinalStateUnknown key _)) \<longleftrightarrow> (\<exists>svc. served ns svc \<and> key = meta_key svc)"

definition system_ok :: "string \<Rightarrow> 'w system \<Rightarrow> bool" where
  "system_ok ns s \<longleftrightarrow> store_ok ns (in_store s) \<and> (\<forall>d \<in> set (concat (queue s)). delta_ok ns d)"

lemma from_watch_ok: "store_ok ns store \<Longrightarrow> from_watch ns store d \<Longrightarrow> delta_ok ns d"
  by (induction ns store d rule: from_watch.induct) (auto simp: store_ok_def ran_def)

lemma served_key: "object_key svc' = object_key svc \<Longrightarrow> served ns svc' = served ns svc"
  by (simp add: object_key_def served_def)

lemma meta_key_cong: "object_key svc' = object_key svc \<Longrightarrow> meta_key svc' = meta_key svc"
  by (simp add: object_key_def meta_key_def)

lemma store_ok_put:
  "store_ok ns store \<Longrightarrow> served ns svc \<Longrightarrow> object_key svc' = object_key svc \<Longrightarrow>
   store_ok ns (store(meta_key svc \<mapsto> svc'))"
  using meta_key_cong [of svc' svc] served_key [of svc' svc] by (auto simp: store_ok_def)

lemma store_ok_drop: "store_ok ns store \<Longrightarrow> store_ok ns (store(k := None))"
  by (auto simp: store_ok_def)


section \<open>The machine that the loop refines\<close>

text \<open>
  One step handles one service of the watched namespace that is on the white list: it may change
  that service, objects of its namespace, and the OAuth client of its name.
\<close>

inductive abs_step :: "config \<Rightarrow> string \<Rightarrow> cluster \<Rightarrow> cluster \<Rightarrow> bool" for config ns where
  handle: "isServiceWhitelisted n config \<Longrightarrow> ns = '''' \<or> m = ns \<Longrightarrow> confined m n C C' \<Longrightarrow> abs_step config ns C C'"

text \<open>What no run of the machine changes.\<close>

definition untouched :: "config \<Rightarrow> string \<Rightarrow> cluster \<Rightarrow> cluster \<Rightarrow> bool" where
  "untouched config ns C C' \<longleftrightarrow>
     (\<forall>m n. \<not> isServiceWhitelisted n config \<or> (ns \<noteq> '''' \<and> m \<noteq> ns) \<longrightarrow> svcs C' (m, n) = svcs C (m, n)) \<and>
     (\<forall>m n. ns \<noteq> '''' \<and> m \<noteq> ns \<longrightarrow>
        ings C' (m, n) = ings C (m, n) \<and> cmaps C' (m, n) = cmaps C (m, n) \<and> deps C' (m, n) = deps C (m, n) \<and>
        rts C' (m, n) = rts C (m, n)) \<and>
     (\<forall>n. \<not> isServiceWhitelisted n config \<longrightarrow> oauths C' n = oauths C n)"

lemma untouched_refl [simp]: "untouched config ns C C"
  by (simp add: untouched_def)

lemma untouched_trans: "untouched config ns C C' \<Longrightarrow> untouched config ns C' C'' \<Longrightarrow> untouched config ns C C''"
  by (simp add: untouched_def)

lemma abs_step_untouched: "abs_step config ns C C' \<Longrightarrow> untouched config ns C C'"
proof (induction rule: abs_step.induct)
  case (handle n m C C')
  then have "n' \<noteq> n" if "\<not> isServiceWhitelisted n' config" for n' using that by auto
  moreover have "m' \<noteq> m" if "ns \<noteq> ''''" "m' \<noteq> ns" for m' using that handle by auto
  ultimately show ?case using handle(3) unfolding confined_def untouched_def by (metis fst_conv prod.inject)
qed

lemma abs_run_untouched: "(abs_step config ns)\<^sup>*\<^sup>* C C' \<Longrightarrow> untouched config ns C C'"
  by (induction rule: rtranclp_induct) (auto intro: untouched_trans abs_step_untouched)

context app_server
begin

text \<open>One change: the invariant is kept and the server state moves as the machine may.\<close>

lemma handled_refines:
  assumes "within view m n w w'" "w' = w \<or> isServiceWhitelisted n config" "ns = '''' \<or> m = ns" "tidy (view w)"
  shows "(abs_step config ns)\<^sup>*\<^sup>* (view w) (view w') \<and> tidy (view w')"
  using assms by (auto simp: within_def intro: abs_step.handle)

lemma deliver_refines:
  assumes "deliver K OC L Y C svc s = (r, s')" "store_ok ns (in_store s)" "served ns svc" "tidy (view (in_world s))"
  shows "store_ok ns (in_store s') \<and> tidy (view (in_world s')) \<and>
    (abs_step (ct_config C) ns)\<^sup>*\<^sup>* (view (in_world s)) (view (in_world s'))"
proof -
  let ?h = "case in_store s (meta_key svc) of
      Some old \<Rightarrow> UpdateFunc K OC L Y C old svc (in_strategy s) (in_world s)
    | None \<Rightarrow> AddFunc K OC L Y C svc (in_strategy s) (in_world s)"
  obtain svc' st' w' where h: "?h = (r, svc', st', w')"
    and s': "s' = \<lparr>in_store = (in_store s)(meta_key svc \<mapsto> svc'), in_strategy = st', in_world = w'\<rparr>"
    using assms(1) by (auto simp: deliver_def split: prod.splits)
  have ns: "Namespace svc \<noteq> ''''" "ns = '''' \<or> Namespace svc = ns" using assms(3) by (auto simp: served_def)
  have w: "within view (Namespace svc) (Name svc) (in_world s) w'" "object_key svc' = object_key svc"
    "w' = in_world s \<or> isServiceWhitelisted (Name svc) (ct_config C)"
    using h within_AddFunc [OF ns(1)] within_UpdateFunc [OF ns(1)] by (auto split: option.splits)
  from handled_refines [OF w(1,3) ns(2) assms(4)] store_ok_put [OF assms(2,3) w(2)] show ?thesis
    by (simp add: s')
qed

lemma delete_refines:
  assumes "DeleteFunc K OC L C obj st w = (r, st', w')" "delta_ok ns (Deleted obj)" "tidy (view w)"
  shows "(abs_step (ct_config C) ns)\<^sup>*\<^sup>* (view w) (view w') \<and> tidy (view w')"
proof (cases obj)
  case (DeletedFinalStateUnknown key x)
  with assms(2) obtain svc where svc: "served ns svc" "key = Namespace svc @ ''/'' @ Name svc"
    by (auto simp: meta_key_def served_def)
  with within_DeleteFunc [of C "Namespace svc" "Name svc" x st w r st' w'] assms(1) DeletedFinalStateUnknown
  have "within view (Namespace svc) (Name svc) w w' \<and> (w' = w \<or> isServiceWhitelisted (Name svc) (ct_config C))"
    by (simp add: served_def)
  moreover have "ns = '''' \<or> Namespace svc = ns" using svc(1) by (simp add: served_def)
  ultimately show ?thesis using handled_refines assms(3) by blast
qed (use assms in \<open>simp add: DeleteFunc_def\<close>)

lemma process_delta_refines:
  assumes "process_delta K OC L Y C d s = (r, s')" "store_ok ns (in_store s)" "delta_ok ns d" "tidy (view (in_world s))"
  shows "store_ok ns (in_store s') \<and> tidy (view (in_world s')) \<and>
    (abs_step (ct_config C) ns)\<^sup>*\<^sup>* (view (in_world s)) (view (in_world s'))"
proof (cases d)
  case (Deleted obj)
  with assms(1) obtain st' w' where del: "DeleteFunc K OC L C obj (in_strategy s) (in_world s) = (r, st', w')"
    and s': "s' = \<lparr>in_store = (in_store s)(deleted_key obj := None), in_strategy = st', in_world = w'\<rparr>"
    by (auto split: prod.splits)
  from delete_refines [OF del _ assms(4)] assms(2,3) Deleted show ?thesis by (simp add: s' store_ok_drop)
qed (use assms deliver_refines in auto)

lemma Process_refines:
  assumes "Process K OC L Y C ds s = (r, s')" "store_ok ns (in_store s)" "\<forall>d \<in> set ds. delta_ok ns d"
    "tidy (view (in_world s))"
  shows "store_ok ns (in_store s') \<and> tidy (view (in_world s')) \<and>
    (abs_step (ct_config C) ns)\<^sup>*\<^sup>* (view (in_world s)) (view (in_world s'))"
  using assms
proof (induction ds arbitrary: s)
  case (Cons d ds)
  obtain r1 s1 where d: "process_delta K OC L Y C d s = (r1, s1)" by fastforce
  with process_delta_refines Cons.prems(2-4) have one: "store_ok ns (in_store s1)" "tidy (view (in_world s1))"
    "(abs_step (ct_config C) ns)\<^sup>*\<^sup>* (view (in_world s)) (view (in_world s1))" by auto
  show ?case
  proof (cases "\<exists>p. r1 = Panic p")
    case True
    with d Cons.prems(1) one show ?thesis by auto
  next
    case False
    with d Cons.prems(1) have "Process K OC L Y C ds s1 = (r, s')" by (cases r1) auto
    from Cons.IH [OF this one(1) _ one(2)] Cons.prems(3) one(3) show ?thesis by (auto intro: rtranclp_trans)
  qed
qed simp

end

section \<open>Runs\<close>

text \<open>
  The laws under which one step relation refines another through an abstraction of its states: every
  step keeps the invariant and is matched by steps of the other relation.
\<close>

locale step_refinement =
  fixes cstep :: "'s \<Rightarrow> 's \<Rightarrow> bool"
    and astep :: "'a \<Rightarrow> 'a \<Rightarrow> bool"
    and abs :: "'s \<Rightarrow> 'a"
    and inv :: "'s \<Rightarrow> bool"
  assumes simulation: "cstep s s' \<Longrightarrow> inv s \<Longrightarrow> inv s' \<and> astep\<^sup>*\<^sup>* (abs s) (abs s')"
begin

lemma run_refines: "cstep\<^sup>*\<^sup>* s s' \<Longrightarrow> inv s \<Longrightarrow> inv s' \<and> astep\<^sup>*\<^sup>* (abs s) (abs s')"
proof (induction rule: rtranclp_induct)
  case (step t u)
  with simulation [of t u] show ?case by (auto intro: rtranclp_trans)
qed simp

end

context app_server
begin

lemma pop_step_refines:
  assumes "pop_step K OC L Y C s s'" "system_ok ns s" "tidy (view (in_world s))"
  shows "(system_ok ns s' \<and> tidy (view (in_world s'))) \<and>
    (abs_step (ct_config C) ns)\<^sup>*\<^sup>* (view (in_world s)) (view (in_world s'))"
  using assms(1)
proof cases
  case (pop ds q)
  let ?i = "snd (Process K OC L Y C ds (informer_of s))"
  have "store_ok ns (in_store ?i) \<and> tidy (view (in_world ?i)) \<and>
      (abs_step (ct_config C) ns)\<^sup>*\<^sup>* (view (in_world s)) (view (in_world ?i))"
    using Process_refines [of Y C ds "informer_of s" "fst (Process K OC L Y C ds (informer_of s))" ?i ns] assms(2,3) pop(2)
    by (simp add: informer_of_def system_ok_def)
  with pop assms(2) show ?thesis by (simp add: with_queue_def system_ok_def)
qed

end

sublocale app_server \<subseteq> loop: step_refinement "system_step K OC L Y C ns" "abs_step (ct_config C) ns"
    "\<lambda>s. view (in_world s)" "\<lambda>s. system_ok ns s \<and> tidy (view (in_world s))"
proof
  fix s s' :: "'w system"
  assume step: "system_step K OC L Y C ns s s'" and inv: "system_ok ns s \<and> tidy (view (in_world s))"
  from step show "(system_ok ns s' \<and> tidy (view (in_world s'))) \<and>
      (abs_step (ct_config C) ns)\<^sup>*\<^sup>* (view (in_world s)) (view (in_world s'))"
  proof cases
    case (reflect q)
    with inv from_watch_ok show ?thesis unfolding system_ok_def by fastforce
  next
    case process
    with inv show ?thesis by (intro pop_step_refines) auto
  qed
qed

context app_server
begin

lemma system_run_refines:
  assumes "(system_step K OC L Y C ns)\<^sup>*\<^sup>* s s'" "system_ok ns s" "tidy (view (in_world s))"
  shows "(system_ok ns s' \<and> tidy (view (in_world s'))) \<and>
    (abs_step (ct_config C) ns)\<^sup>*\<^sup>* (view (in_world s)) (view (in_world s'))"
  using loop.run_refines assms by blast

end

definition start :: "strategy \<Rightarrow> 'w \<Rightarrow> 'w system" where
  "start st w = \<lparr>in_store = Map.empty, in_strategy = st, in_world = w, queue = []\<rparr>"

lemma start_ok [simp]: "system_ok ns (start st w)" "in_world (start st w) = w"
  by (simp_all add: system_ok_def store_ok_def start_def)

text \<open>
  C4: refinement. Every run of the informer loop, with changes arriving and being merged in any way
  and handlers failing or panicking at any point, is matched by a run of the machine that handles
  white-listed services of the watched namespace one at a time, each within its bounds.
\<close>

theorem informer_refines:
  assumes "app_server K L view OC"
    and "(system_step K OC L Y C ns)\<^sup>*\<^sup>* (start st w) s" "tidy (view w)"
  shows "(abs_step (ct_config C) ns)\<^sup>*\<^sup>* (view w) (view (in_world s))"
  using app_server.system_run_refines [OF assms(1,2)] assms(3) by simp

text \<open>
  Confinement. However long the controller runs, it changes no service that is outside the watched
  namespace or not on the white list, no ingress, ConfigMap, deployment or route outside the watched
  namespace, and no OAuth client whose name is not on the white list.
\<close>

theorem informer_confined:
  assumes "app_server K L view OC"
    and "(system_step K OC L Y C ns)\<^sup>*\<^sup>* (start st w) s" "tidy (view w)"
  shows "untouched (ct_config C) ns (view w) (view (in_world s))"
  using app_server.system_run_refines [OF assms(1,2)] assms(3) by (simp add: abs_run_untouched)

text \<open>
  Invariant of the informer. In every reachable state the store holds each service under the key
  that its namespace and name give, all of them services of the watched namespace, and every queued
  change names such a service, so a deletion marker always has a key that \<^verbatim>\<open>DeleteFunc\<close> can split.
\<close>

theorem informer_invariant:
  assumes "app_server K L view OC"
    and "(system_step K OC L Y C ns)\<^sup>*\<^sup>* (start st w) s" "tidy (view w)"
  shows "system_ok ns s \<and>
    (\<forall>key x. Deleted (DeletedFinalStateUnknown key x) \<in> set (concat (queue s)) \<longrightarrow> length (Split key CHR ''/'') = 2)"
proof -
  from app_server.system_run_refines [OF assms(1,2)] assms(3) have ok: "system_ok ns s" by simp
  have "length (Split key CHR ''/'') = 2" if "Deleted (DeletedFinalStateUnknown key x) \<in> set (concat (queue s))" for key x
  proof -
    from ok that have "delta_ok ns (Deleted (DeletedFinalStateUnknown key x))" unfolding system_ok_def by blast
    then obtain svc where "served ns svc" "key = meta_key svc" by auto
    then show ?thesis by (simp add: meta_key_def served_def Split_append_sep Split_fresh)
  qed
  with ok show ?thesis by blast
qed

text \<open>
  The loop drains any queue. Taking entries is possible as long as there are any, each takes one
  away whatever the handlers do, and so from every state the loop reaches an empty queue after as
  many steps as there were entries, and cannot go on for longer.
\<close>

theorem queue_drains:
  "wfp (\<lambda>s' s. pop_step K OC L Y C s s') \<and>
   (\<exists>s'. (pop_step K OC L Y C ^^ length (queue s)) s s' \<and> queue s' = []) \<and>
   ((\<exists>s'. pop_step K OC L Y C s s') \<longleftrightarrow> queue s \<noteq> [])"
proof (intro conjI)
  have less: "length (queue s') < length (queue s)" if "pop_step K OC L Y C s s'" for s s'
    using that by cases (simp add: with_queue_def)
  show "wfp (\<lambda>s' s. pop_step K OC L Y C s s')"
    by (rule wfp_if_convertible_to_nat [where f = "\<lambda>s. length (queue s)"]) (rule less)
  show "\<exists>s'. (pop_step K OC L Y C ^^ length (queue s)) s s' \<and> queue s' = []"
  proof (induction "queue s" arbitrary: s)
    case (Cons ds q)
    let ?s1 = "with_queue (snd (Process K OC L Y C ds (informer_of s))) q"
    have "pop_step K OC L Y C s ?s1" using Cons.hyps(2) [symmetric] by (rule pop)
    moreover have "queue ?s1 = q" by (simp add: with_queue_def)
    with Cons.hyps(1) [of ?s1] obtain s' where "(pop_step K OC L Y C ^^ length q) ?s1 s'" "queue s' = []" by auto
    ultimately have "(pop_step K OC L Y C ^^ Suc (length q)) s s'" by (blast intro: relpowp_Suc_I2)
    with \<open>queue s' = []\<close> show ?case unfolding Cons.hyps(2) [symmetric] by auto
  qed auto
  show "(\<exists>s'. pop_step K OC L Y C s s') \<longleftrightarrow> queue s \<noteq> []"
    by (auto simp: pop_step_iff neq_Nil_conv)
qed

section \<open>An example run\<close>

text \<open>
  A cluster with one marked service and one that is not on the white list; the loop sees both
  appear, under the load balancer strategy.
\<close>

definition marked_service :: service where
  "marked_service = lb_service\<lparr>Labels := Some (fmupd ''expose'' ''true'' fmempty)\<rparr>"

definition other_service :: service where
  "other_service = marked_service\<lparr>Name := ''api''\<rparr>"

definition watch_state :: ref_state where
  "watch_state = lb_state\<lparr>ref_services := [((''dev'', ''web''), marked_service), ((''dev'', ''api''), other_service)]\<rparr>"

definition example_controller :: controller where
  "example_controller = \<lparr>ct_config = DefaultConfig\<lparr>Services := [''web'']\<rparr>, ct_has_oc = False, ct_authorizeURL = ''''\<rparr>"

abbreviation example_step :: "ref_state system \<Rightarrow> ref_state system \<Rightarrow> bool" where
  "example_step \<equiv> system_step ref_client ref_oclient ref_lib ref_yaml_lib example_controller ''dev''"

definition watched :: "ref_state system" where
  "watched = with_queue (snd (Process ref_client ref_oclient ref_lib ref_yaml_lib example_controller [Added marked_service]
     (informer_of (start LoadBalancerStrategy watch_state)))) [[Added other_service]]"

lemma watched_names:
  "Namespace marked_service = ''dev''" "Name marked_service = ''web''"
  "Namespace other_service = ''dev''" "Name other_service = ''api''"
  by (simp_all add: other_service_def marked_service_def lb_service_def example_service_def)

lemma watched_reached: "example_step\<^sup>*\<^sup>* (start LoadBalancerStrategy watch_state) watched"
proof -
  let ?s0 = "start LoadBalancerStrategy watch_state"
  let ?q = "[[Added marked_service], [Added other_service]]"
  have "example_step ?s0 (?s0\<lparr>queue := ?q\<rparr>)"
    by (rule system_step.reflect) (auto simp: served_def watched_names)
  moreover have "informer_of (?s0\<lparr>queue := ?q\<rparr>) = informer_of ?s0" by (simp add: informer_of_def)
  then have "example_step (?s0\<lparr>queue := ?q\<rparr>) watched"
    unfolding watched_def by (metis system_step.process pop_step.pop system.select_convs(1) system.surjective system.update_convs(1))
  ultimately show ?thesis by (meson converse_rtranclp_into_rtranclp rtranclp.rtrancl_refl)
qed

lemma watch_state_tidy: "tidy (ref_view watch_state)"
  by (simp add: tidy_def keyed_def ref_view_def watch_state_def lb_state_def)

lemma marked_handled:
  "\<exists>w1. strategy_Add ref_client ref_oclient ref_lib LoadBalancerStrategy marked_service watch_state =
       (Ok (), marked_service, LoadBalancerStrategy, w1) \<and>
     AddFunc ref_client ref_oclient ref_lib ref_yaml_lib example_controller marked_service LoadBalancerStrategy watch_state =
       (Ok (), marked_service, LoadBalancerStrategy, w1) \<and>
     (\<exists>t. svcs (ref_view w1) (''dev'', ''web'') = Some t \<and> ServiceType t = ''LoadBalancer'')"
proof -
  have white: "isServiceWhitelisted (Name marked_service) (ct_config example_controller)"
    by (simp add: isServiceWhitelisted_def example_controller_def watched_names)
  have marked: "exposed_by_mark marked_service" by (simp add: exposed_by_mark_def marked_service_def)
  have stored: "svcs (ref_view watch_state) (service_key marked_service) = Some marked_service"
    by (simp add: ref_view_def watch_state_def watched_names)
  have "fst (LoadBalancer_Add ref_client ref_lib marked_service watch_state) = Ok ()"
    by (simp add: LoadBalancer_Add_def patchService_def createPatch_def ref_lib_def ref_client_def
        watch_state_def marked_service_def lb_service_def example_service_def split: if_splits)
  then obtain w1 where add: "LoadBalancer_Add ref_client ref_lib marked_service watch_state = (Ok (), w1)"
    by (cases "LoadBalancer_Add ref_client ref_lib marked_service watch_state") simp
  from ref.patchService_stored [OF add [unfolded LoadBalancer_Add_def] stored] obtain t where
    t: "accepts_service (LoadBalancer_clone marked_service) t"
    and v: "ref_view w1 = (ref_view watch_state)\<lparr>svcs := (svcs (ref_view watch_state))(service_key marked_service \<mapsto> t)\<rparr>" by blast
  have "configmaps_get ref_client ''dev'' ''web'' w1 = Inl NotFound"
    using arg_cong [OF v, of cmaps] by (simp add: ref_client_def ref_get_def ref_view_def watch_state_def lb_state_def fun_eq_iff)
  then have "updateRelatedResources ref_client None ref_lib ref_yaml_lib marked_service config url w1 = (Ok (), w1)" for config url
    by (simp add: updateRelatedResources_def updateServiceConfigMap_def watched_names Let_def)
      (simp add: marked_service_def lb_service_def example_service_def)
  with add white marked have "AddFunc ref_client ref_oclient ref_lib ref_yaml_lib example_controller marked_service
      LoadBalancerStrategy watch_state = (Ok (), marked_service, LoadBalancerStrategy, w1)"
    by (simp add: AddFunc_def expose_service_def strategy_Add_def controller_oc_def example_controller_def)
  moreover have "ServiceType t = ''LoadBalancer''"
    using t by (simp add: accepts_service_def LoadBalancer_clone_def addServiceAnnotation_def Let_def split: if_splits)
  ultimately show ?thesis using add v by (simp add: strategy_Add_def watched_names)
qed

text \<open>The run has exposed the marked service.\<close>

lemma watched_exposed: "\<exists>t. svcs (ref_view (in_world watched)) (''dev'', ''web'') = Some t \<and> ServiceType t = ''LoadBalancer''"
  using marked_handled by (auto simp: watched_def with_queue_def deliver_def informer_of_def start_def)

theorem relist_converges_witness:
  "\<exists>f'. processLoop ref_client ref_oclient ref_lib ref_yaml_lib example_controller
       (Replace [''dev/web''] [''dev/web'' \<mapsto> marked_service] [marked_service]
          (reflect [''dev/web'' \<mapsto> marked_service] (WatchDeleted marked_service) NewDeltaFIFO))
       \<lparr>in_store = [''dev/web'' \<mapsto> marked_service], in_strategy = LoadBalancerStrategy, in_world = watch_state\<rparr> =
     (Ok (), f', \<lparr>in_store = Map.empty, in_strategy = LoadBalancerStrategy, in_world = watch_state\<rparr>) \<and> entries f' = []"
proof -
  let ?store = "[''dev/web'' \<mapsto> marked_service]"
  let ?s = "\<lparr>in_store = ?store, in_strategy = LoadBalancerStrategy, in_world = watch_state\<rparr>"
  let ?s' = "?s\<lparr>in_store := Map.empty\<rparr>"
  let ?f = "reflect ?store (WatchDeleted marked_service) NewDeltaFIFO"
  let ?r = "Replace [''dev/web''] ?store [marked_service] ?f"
  have key: "meta_key marked_service = ''dev/web''" by (simp add: meta_key_def watched_names)
  have ok: "fifo_ok ?f" by (rule reflect_ok) simp
  have ok': "fifo_ok ?r" using reflect_ok [OF ok, of ?store "Listing [''dev/web''] [marked_service]"] by simp
  have "entries ?f = [(''dev/web'', [Deleted (DeletedObject marked_service)])]"
    using entries_reflect [of NewDeltaFIFO ?store "WatchDeleted marked_service"]
    by (simp del: reflect.simps add: key merge_delta_def)
  then have "entries ?r = [(''dev/web'', [Deleted (DeletedObject marked_service)])]"
    using entries_reflect [OF ok, of ?store "Listing [''dev/web''] [marked_service]"] by (simp add: key merge_delta_def)
  from Pop_first [OF ok' this] obtain f' where pop: "Pop ?r = (Some [Deleted (DeletedObject marked_service)], f')" "entries f' = []"
    by blast
  have "Process ref_client ref_oclient ref_lib ref_yaml_lib example_controller [Deleted (DeletedObject marked_service)] ?s = (Ok (), ?s')"
    by (simp add: DeleteFunc_def key)
  from processLoop_pops [OF pop(1) this] pop(2)
  have run: "processLoop ref_client ref_oclient ref_lib ref_yaml_lib example_controller ?r ?s = (Ok (), f', ?s')"
    by (simp add: processLoop_waits)
  then have "processLoop ref_client ref_oclient ref_lib ref_yaml_lib example_controller
      (Replace [''dev/web''] (in_store ?s) [marked_service] ?f) ?s = (Ok (), f', ?s')" by (simp del: reflect.simps)
  from relist_converges [OF ok _ this] have "entries f' = []" by simp
  with run show ?thesis by auto
qed

theorem informer_refines_witness:
  "(abs_step (ct_config example_controller) ''dev'')\<^sup>*\<^sup>* (ref_view watch_state) (ref_view (in_world watched)) \<and>
   ref_view watch_state \<noteq> ref_view (in_world watched)"
proof -
  have "svcs (ref_view watch_state) (''dev'', ''web'') = Some marked_service"
    by (simp add: ref_view_def watch_state_def)
  with watched_exposed have "ref_view watch_state \<noteq> ref_view (in_world watched)"
    by (auto simp: marked_service_def lb_service_def example_service_def)
  with informer_refines [OF ref.app_server_axioms watched_reached watch_state_tidy] show ?thesis by blast
qed

theorem informer_confined_witness:
  "svcs (ref_view (in_world watched)) (''dev'', ''api'') = Some other_service"
proof -
  have "\<not> isServiceWhitelisted ''api'' (ct_config example_controller)"
    by (simp add: isServiceWhitelisted_def example_controller_def)
  with informer_confined [OF ref.app_server_axioms watched_reached watch_state_tidy]
  have "svcs (ref_view (in_world watched)) (''dev'', ''api'') = svcs (ref_view watch_state) (''dev'', ''api'')"
    unfolding untouched_def by blast
  then show ?thesis by (simp add: ref_view_def watch_state_def)
qed

theorem informer_invariant_witness:
  "system_ok ''dev'' watched \<and> queue watched = [[Added other_service]]"
  using informer_invariant [OF ref.app_server_axioms watched_reached watch_state_tidy]
  by (simp add: watched_def with_queue_def)

end
