(* ===== verification/ExposeController.thy ===== *)
theory ExposeController
  imports Handlers Informer
begin

text \<open>
  \<^verbatim>\<open>exposecontroller.go\<close>, the main program up to the point where the controller runs: the client, the
  configuration and its overrides, the namespace to watch, and the removal of generated ingresses.
\<close>

section \<open>The client\<close>

text \<open>
  \<open>tries i\<close> is what the call number \<open>i\<close> of \<^verbatim>\<open>factory.Client()\<close> answers. One call is made
  before the loop, and one in each of its rounds while there is an error.
\<close>

fun client_loop :: "(nat \<Rightarrow> goerror + 'c) \<Rightarrow> nat \<Rightarrow> nat \<Rightarrow> goerror + 'c \<Rightarrow> goerror + 'c" where
  "client_loop tries i 0 client = client"
| "client_loop tries i (Suc rounds) client =
     (case client of
        Inl err \<Rightarrow> client_loop tries (Suc i) rounds (tries (Suc i))
      | Inr c \<Rightarrow> Inr c)"

text \<open>An \<open>Err\<close> is a call of \<^verbatim>\<open>glog.Fatalf\<close>, which ends the process.\<close>

definition make_client :: "(nat \<Rightarrow> goerror + 'c) \<Rightarrow> 'c outcome" where
  "make_client tries =
     (case client_loop tries 0 30 (tries 0) of
        Inl e \<Rightarrow> Err (WithMessage ''failed to create client'' e)
      | Inr c \<Rightarrow> Ok c)"


section \<open>The configuration\<close>

definition tryFindConfig :: "('w, 'b) client \<Rightarrow> yaml_lib \<Rightarrow> string \<Rightarrow> 'w \<Rightarrow> config option outcome" where
  "tryFindConfig K Y ns w =
     (case configmaps_get K ns ''exposecontroller'' w of
        Inr cm \<Rightarrow>
          (let text = mget (Data cm) ''config.yml''
           in if text = '''' then Ok None
              else case Load Y text of
                     Ok c \<Rightarrow> Ok (Some c)
                   | Err e \<Rightarrow> Ok None
                   | Panic p \<Rightarrow> Panic p)
      | Inl _ \<Rightarrow>
          (case configmaps_get K ns ''ingress-config'' w of
             Inl _ \<Rightarrow> Ok None
           | Inr cm \<Rightarrow>
               (case Data cm of
                  None \<Rightarrow> Ok None
                | Some data \<Rightarrow> Ok (fst (MapToConfig Y data)))))"

text \<open>The second place to look: the namespace of the team, or the name less its last part.\<close>

definition findTeamConfig :: "('w, 'b) client \<Rightarrow> yaml_lib \<Rightarrow> string \<Rightarrow> 'w \<Rightarrow> config option outcome" where
  "findTeamConfig K Y currentNamespace w =
     (case namespaces_get K currentNamespace w of
        Inr resource \<Rightarrow>
          (if label resource ''team'' = '''' then Ok None else tryFindConfig K Y (label resource ''team'') w)
      | Inl e \<Rightarrow>
          (case LastIndex currentNamespace CHR ''-'' of
             Some idx \<Rightarrow> if idx > 1 then tryFindConfig K Y (take idx currentNamespace) w else Ok None
           | None \<Rightarrow> Ok None))"

text \<open>The configuration before the overrides; \<open>None\<close> is the nil pointer.\<close>

definition findConfig ::
  "('w, 'b) client \<Rightarrow> yaml_lib \<Rightarrow> file_error + string \<Rightarrow> string \<Rightarrow> 'w \<Rightarrow> config option outcome" where
  "findConfig K Y file currentNamespace w =
     outcome_bind (LoadFile Y file) (\<lambda>loaded.
       case loaded of
         Inl (c, True) \<Rightarrow> Ok (Some c)
       | _ \<Rightarrow>
           outcome_bind (tryFindConfig K Y currentNamespace w) (\<lambda>cc.
             outcome_bind (if cc = None then findTeamConfig K Y currentNamespace w else Ok cc) (\<lambda>cc2.
               case cc2 of
                 Some c \<Rightarrow> Ok (Some c)
               | None \<Rightarrow> Ok (case loaded of Inl (c, _) \<Rightarrow> Some c | Inr _ \<Rightarrow> None))))"

record flags =
  fl_configFile :: string
  fl_resyncPeriod :: int
  fl_healthzPort :: int
  fl_profiling :: bool
  fl_daemon :: bool
  fl_cleanup :: bool
  fl_domain :: string
  fl_filter :: string
  fl_exposer :: string
  fl_apiserver :: string
  fl_consoleurl :: string
  fl_http :: bool
  fl_watchNamespaces :: string
  fl_watchCurrentNamespace :: bool
  fl_services :: string

text \<open>The resync period is a duration in nanoseconds.\<close>

abbreviation healthPort :: int where
  "healthPort \<equiv> 10254"

definition default_flags :: flags where
  "default_flags =
     \<lparr>fl_configFile = ''/etc/exposecontroller/config.yml'', fl_resyncPeriod = 30 * 1000000000, fl_healthzPort = healthPort,
      fl_profiling = True, fl_daemon = False, fl_cleanup = False, fl_domain = '''', fl_filter = '''', fl_exposer = '''', fl_apiserver = '''',
      fl_consoleurl = '''', fl_http = False, fl_watchNamespaces = '''', fl_watchCurrentNamespace = True, fl_services = ''''\<rparr>"

definition override :: "flags \<Rightarrow> config \<Rightarrow> config" where
  "override F c0 =
     (let c1 = (if fl_domain F \<noteq> '''' then c0\<lparr>Domain := fl_domain F\<rparr> else c0);
          c2 = (if fl_exposer F \<noteq> '''' then c1\<lparr>Exposer := fl_exposer F\<rparr> else c1);
          c3 = (if fl_apiserver F \<noteq> '''' then c2\<lparr>ApiServer := fl_apiserver F\<rparr> else c2);
          c4 = (if fl_consoleurl F \<noteq> '''' then c3\<lparr>ConsoleURL := fl_consoleurl F\<rparr> else c3);
          c5 = (if fl_http F then c4\<lparr>HTTPOnly := fl_http F\<rparr> else c4);
          c6 = (if fl_watchCurrentNamespace F then c5\<lparr>WatchCurrentNamespace := fl_watchCurrentNamespace F\<rparr> else c5);
          c7 = (if fl_watchNamespaces F \<noteq> ''''
                then c6\<lparr>WatchNamespaces := fl_watchNamespaces F, WatchCurrentNamespace := False\<rparr> else c6)
      in if fl_services F \<noteq> '''' then c7\<lparr>Services := Split (fl_services F) CHR '',''\<rparr> else c7)"

definition watched_namespace :: "config \<Rightarrow> string \<Rightarrow> string outcome" where
  "watched_namespace c currentNamespace =
     (if WatchCurrentNamespace c then
        (if currentNamespace = '''' then Err (ErrMsg ''No current namespace found!'') else Ok currentNamespace)
      else Ok (WatchNamespaces c))"


section \<open>Cleaning up\<close>

definition generated_ingress :: "string \<Rightarrow> ingress \<Rightarrow> bool" where
  "generated_ingress flt i \<longleftrightarrow>
     annotation i ''fabric8.io/generated-by'' = ''exposecontroller'' \<and> Contains (Name i) flt"

fun cleanup_loop ::
  "('w, 'b) client \<Rightarrow> string \<Rightarrow> string \<Rightarrow> ingress list \<Rightarrow> 'w \<Rightarrow> unit outcome \<times> 'w" where
  "cleanup_loop K ns flt [] w = (Ok (), w)"
| "cleanup_loop K ns flt (i # is) w =
     (if generated_ingress flt i then
        (case ingress_delete K ns (Name i) w of
           (Some e, w') \<Rightarrow> (Err (WithMessage ''Could not find the current namespace'' (ApiErr e)), w')
         | (None, w') \<Rightarrow> cleanup_loop K ns flt is w')
      else cleanup_loop K ns flt is w)"

definition cleanup :: "('w, 'b) client \<Rightarrow> string \<Rightarrow> string \<Rightarrow> 'w \<Rightarrow> unit outcome \<times> 'w" where
  "cleanup K ns flt w =
     (case ingress_list K ns w of
        Inl e \<Rightarrow> (Err (WithMessage (''Could not get ingress rules in namespace '' @ ns) (ApiErr e)), w)
      | Inr is \<Rightarrow> cleanup_loop K ns flt is w)"


section \<open>The main function\<close>

text \<open>
  What \<^verbatim>\<open>main\<close> gets from its surroundings beside the client: the files, the default namespace of the
  factory, and the outcome of \<^verbatim>\<open>factory.ClientConfig()\<close>.
\<close>

record surroundings =
  read_file :: "string \<Rightarrow> file_error + string"
  default_namespace :: "goerror + string"
  client_config :: "goerror option"

datatype main_result = CleanedUp | Watching bool string controller strategy

definition current_namespace :: "host_env \<Rightarrow> surroundings \<Rightarrow> string outcome" where
  "current_namespace H S =
     (if Getenv H ''KUBERNETES_NAMESPACE'' \<noteq> '''' then Ok (Getenv H ''KUBERNETES_NAMESPACE'')
      else case default_namespace S of
             Inl e \<Rightarrow> Err (WithMessage ''Could not find the current namespace'' e)
           | Inr ns \<Rightarrow> Ok ns)"

text \<open>A nil configuration is dereferenced when it is logged.\<close>

definition loaded_config ::
  "('w, 'b) client \<Rightarrow> yaml_lib \<Rightarrow> flags \<Rightarrow> surroundings \<Rightarrow> string \<Rightarrow> 'w \<Rightarrow> config outcome" where
  "loaded_config K Y F S currentNamespace w =
     (case client_config S of
        Some e \<Rightarrow> Err (WithMessage ''failed to create REST client config'' e)
      | None \<Rightarrow>
          outcome_bind (findConfig K Y (read_file S (fl_configFile F)) currentNamespace w) (\<lambda>c.
            case c of
              None \<Rightarrow> Panic ''nil pointer dereference''
            | Some config \<Rightarrow> Ok (override F config)))"

definition main ::
  "('w, 'b) client \<Rightarrow> 'b golib \<Rightarrow> yaml_lib \<Rightarrow> host_env \<Rightarrow> flags \<Rightarrow> surroundings \<Rightarrow> 'w \<Rightarrow> main_result outcome \<times> 'w" where
  "main K L Y H F S w =
     (case outcome_bind (current_namespace H S) (\<lambda>currentNamespace.
             outcome_bind (loaded_config K Y F S currentNamespace w) (\<lambda>config.
               outcome_bind (watched_namespace config currentNamespace) (\<lambda>ns. Ok (config, ns)))) of
        Err e \<Rightarrow> (Err e, w)
      | Panic p \<Rightarrow> (Panic p, w)
      | Ok (config, ns) \<Rightarrow>
          if fl_cleanup F then
            (case cleanup K ns (fl_filter F) w of
               (Ok _, w') \<Rightarrow> (Ok CleanedUp, w')
             | (Err e, w') \<Rightarrow> (Err e, w')
             | (Panic p, w') \<Rightarrow> (Panic p, w'))
          else (outcome_bind (NewController K L H config w) (\<lambda>(C, st). Ok (Watching (fl_daemon F) ns C st)), w))"

section \<open>The endpoints of a daemon\<close>

text \<open>
  \<^verbatim>\<open>registerHandlers\<close>: the patterns of the mux with their handlers, and the address of the server. A
  pattern that ends in a slash matches the paths below it, any other only itself, and of the
  matching patterns the longest is taken (\<^verbatim>\<open>http.ServeMux\<close>).
\<close>

datatype endpoint = PprofIndex | PprofProfile | PprofSymbol

definition registerHandlers :: "flags \<Rightarrow> (string \<times> endpoint) list \<times> string" where
  "registerHandlers F =
     (if fl_profiling F
      then [(''/debug/pprof/'', PprofIndex), (''/debug/pprof/profile'', PprofProfile), (''/debug/pprof/symbol'', PprofSymbol)]
      else [],
      '':'' @ Itoa (fl_healthzPort F))"

definition pathMatch :: "string \<Rightarrow> string \<Rightarrow> bool" where
  "pathMatch pattern path \<longleftrightarrow>
     pattern \<noteq> '''' \<and> (if last pattern \<noteq> CHR ''/'' then pattern = path else HasPrefix path pattern)"

definition mux_handler :: "(string \<times> endpoint) list \<Rightarrow> string \<Rightarrow> endpoint option" where
  "mux_handler mux path =
     map_option snd (fold (\<lambda>(pattern, h) best.
       if pathMatch pattern path \<and> (case best of None \<Rightarrow> True | Some (n, _) \<Rightarrow> length pattern > n)
       then Some (length pattern, h) else best) mux None)"

text \<open>Only paths below \<^verbatim>\<open>/debug/pprof/\<close> are answered, and only with profiling; there is no health endpoint.\<close>

lemma endpoints_only_profiling:
  "mux_handler (fst (registerHandlers F)) path =
     (if \<not> fl_profiling F \<or> \<not> HasPrefix path ''/debug/pprof/'' then None
      else if path = ''/debug/pprof/profile'' then Some PprofProfile
      else if path = ''/debug/pprof/symbol'' then Some PprofSymbol
      else Some PprofIndex)"
  by (auto simp: mux_handler_def registerHandlers_def pathMatch_def HasPrefix_iff)

section \<open>Properties of the start\<close>

lemma client_loop_first:
  "client_loop tries i rounds (tries i) =
     (case find (\<lambda>j. \<exists>c. tries j = Inr c) [i..<i + Suc rounds] of Some j \<Rightarrow> tries j | None \<Rightarrow> tries (i + rounds))"
proof (induction rounds arbitrary: i)
  case (Suc rounds)
  have range: "[i..<i + Suc (Suc rounds)] = i # [Suc i..<Suc i + Suc rounds]" by (simp add: upt_rec)
  show ?case using Suc.IH [of "Suc i"] unfolding range by (cases "tries i") (auto simp del: upt_Suc split: option.splits)
qed simp

text \<open>
  C31: the client is made by the first of at most thirty-one tries that succeeds, so the loop ends; the
  process gives up, with the error of the last try, only when all of them fail.
\<close>

theorem make_client_first:
  "make_client tries =
     (case find (\<lambda>i. \<exists>c. tries i = Inr c) [0..<31] of
        Some i \<Rightarrow> Ok (projr (tries i))
      | None \<Rightarrow> Err (WithMessage ''failed to create client'' (projl (tries 30))))"
proof (cases "find (\<lambda>i. \<exists>c. tries i = Inr c) [0..<31]")
  case None
  then have "\<nexists>c. tries 30 = Inr c" by (auto simp: find_None_iff)
  then obtain e where "tries 30 = Inl e" by (cases "tries 30") auto
  with None client_loop_first [of tries 0 30] show ?thesis by (simp add: make_client_def)
next
  case (Some i)
  then obtain c where "tries i = Inr c" by (auto simp: find_Some_iff)
  with Some client_loop_first [of tries 0 30] show ?thesis by (simp add: make_client_def)
qed

lemma override_watch:
  "Services (override F c) = (if fl_services F \<noteq> '''' then Split (fl_services F) CHR '','' else Services c)"
  "WatchNamespaces (override F c) = (if fl_watchNamespaces F \<noteq> '''' then fl_watchNamespaces F else WatchNamespaces c)"
  "WatchCurrentNamespace (override F c) \<longleftrightarrow> fl_watchNamespaces F = '''' \<and> (fl_watchCurrentNamespace F \<or> WatchCurrentNamespace c)"
  by (simp_all add: override_def Let_def)

text \<open>
  Which namespace is watched. A flag that names one wins; otherwise it is the current namespace
  when the flag or the configuration says so. Since that flag is on by default, the
  \<^verbatim>\<open>watch-namespaces\<close> of a configuration has an effect only when the flag is turned off.
\<close>

theorem watched_namespace_override:
  "watched_namespace (override F c) currentNamespace =
     (if fl_watchNamespaces F \<noteq> '''' then Ok (fl_watchNamespaces F)
      else if fl_watchCurrentNamespace F \<or> WatchCurrentNamespace c
           then if currentNamespace = '''' then Err (ErrMsg ''No current namespace found!'') else Ok currentNamespace
      else Ok (WatchNamespaces c)) \<and>
   watched_namespace (override default_flags (c\<lparr>WatchNamespaces := ns\<rparr>)) currentNamespace =
     watched_namespace (override default_flags c) currentNamespace"
  by (simp add: watched_namespace_def override_watch default_flags_def)

lemma LoadFile_cases:
  "LoadFile Y (Inl (ReadFailed e)) = Ok (Inr (WithMessage ''failed to read config file'' (ErrMsg e), False))"
  "LoadFile Y (Inl NotExist) = (case Load Y '''' of
     Ok c \<Rightarrow> Ok (Inl (c, False)) | Err e \<Rightarrow> Ok (Inr (WithMessage ''failed to read config file'' e, False)) | Panic p \<Rightarrow> Panic p)"
  "LoadFile Y (Inr s) = (case Load Y s of
     Ok c \<Rightarrow> Ok (Inl (c, True)) | Err e \<Rightarrow> Ok (Inr (WithMessage ''failed to read config file'' e, False)) | Panic p \<Rightarrow> Panic p)"
  by (simp_all add: LoadFile_def split: outcome.splits)

text \<open>
  C34: without a ConfigMap to fall back on, a missing configuration file gives the default
  configuration with the overrides, but a file that cannot be read or does not parse leaves the
  configuration nil, and the program panics.
\<close>

theorem loaded_config_fallback:
  assumes "client_config S = None" "document Y '''' = NoDocument"
    and "tryFindConfig K Y ns w = Ok None" "findTeamConfig K Y ns w = Ok None"
  shows "loaded_config K Y F S ns w =
    (case read_file S (fl_configFile F) of
       Inl NotExist \<Rightarrow> Ok (override F DefaultConfig)
     | Inl (ReadFailed _) \<Rightarrow> Panic ''nil pointer dereference''
     | Inr s \<Rightarrow> (case Load Y s of Ok c \<Rightarrow> Ok (override F c) | _ \<Rightarrow> Panic ''nil pointer dereference''))"
proof -
  have empty: "Load Y '''' = Ok DefaultConfig"
    using assms(2) by (simp add: Load_def unmarshal_pointer_def DefaultConfig_def)
  have "Load Y s = Panic p \<Longrightarrow> p = ''nil pointer dereference''" for s p
    by (auto simp: Load_def split: prod.splits option.splits)
  with assms empty show ?thesis
    by (auto simp: loaded_config_def findConfig_def LoadFile_cases split: sum.splits file_error.splits outcome.splits)
qed

section \<open>Cleaning up\<close>

text \<open>What the cleanup relies on of a listing of ingresses.\<close>

locale listing_server = app_server K L view OC
  for K :: "('w, 'b) client" and L :: "'b golib" and view :: "'w \<Rightarrow> cluster" and OC :: "'w oclient" +
  assumes list_ingresses: "ingress_list K ns w = Inr is \<Longrightarrow> ns \<noteq> '''' \<Longrightarrow> keyed (ings (view w)) \<Longrightarrow>
      lists_namespace (ings (view w)) ns is"
begin

lemma cleanup_loop_Ok:
  assumes "cleanup_loop K ns flt is w = (Ok (), w')"
  shows "view w' = (view w)\<lparr>ings := ings (view w) |` (- (\<lambda>i. (ns, Name i)) ` {i \<in> set is. generated_ingress flt i})\<rparr>"
  using assms
proof (induction "is" arbitrary: w)
  case (Cons i "is")
  let ?D = "\<lambda>is. (\<lambda>i. (ns, Name i)) ` {i \<in> set is. generated_ingress flt i}"
  show ?case
  proof (cases "generated_ingress flt i")
    case True
    with Cons.prems obtain w1 where del: "ingress_delete K ns (Name i) w = (None, w1)"
      and rest: "cleanup_loop K ns flt is w1 = (Ok (), w')" by (auto split: prod.splits option.splits)
    have "?D (i # is) = insert (ns, Name i) (?D is)" using True by auto
    then have "ings (view w1) |` (- ?D is) = ings (view w) |` (- ?D (i # is))"
      using delete_ingress [OF del] by (auto simp: restrict_map_def fun_eq_iff)
    moreover have "(view w1)\<lparr>ings := m\<rparr> = (view w)\<lparr>ings := m\<rparr>" for m using delete_ingress [OF del] by simp
    ultimately show ?thesis using Cons.IH [OF rest] by metis
  next
    case False
    then have "?D (i # is) = ?D is" by auto
    with False Cons show ?thesis by simp
  qed
qed (simp add: restrict_map_def)

lemma cleanup_Ok:
  assumes "cleanup K ns flt w = (Ok (), w')" "ns \<noteq> ''''" "keyed (ings (view w))"
  shows "view w' = (view w)\<lparr>ings := (\<lambda>k. case ings (view w) k of
     Some i \<Rightarrow> if fst k = ns \<and> generated_ingress flt i then None else Some i | None \<Rightarrow> None)\<rparr>"
proof -
  from assms(1) obtain "is" where l: "ingress_list K ns w = Inr is" and loop: "cleanup_loop K ns flt is w = (Ok (), w')"
    by (auto simp: cleanup_def split: sum.splits)
  have listed: "i \<in> set is \<longleftrightarrow> Namespace i = ns \<and> ings (view w) (ns, Name i) = Some i" for i
    using list_ingresses [OF l assms(2,3)] by (auto simp: lists_namespace_def object_key_def)
  have "ings (view w) |` (- (\<lambda>i. (ns, Name i)) ` {i \<in> set is. generated_ingress flt i}) =
      (\<lambda>k. case ings (view w) k of
         Some i \<Rightarrow> if fst k = ns \<and> generated_ingress flt i then None else Some i | None \<Rightarrow> None)"
  proof
    fix k :: key
    obtain m n where k: "k = (m, n)" by fastforce
    show "(ings (view w) |` (- (\<lambda>i. (ns, Name i)) ` {i \<in> set is. generated_ingress flt i})) k =
      (case ings (view w) k of
         Some i \<Rightarrow> if fst k = ns \<and> generated_ingress flt i then None else Some i | None \<Rightarrow> None)"
    proof (cases "ings (view w) k")
      case (Some i)
      with assms(3) k have "Namespace i = m" "Name i = n" by (auto simp: keyed_def)
      then have here: "m = ns \<Longrightarrow> i \<in> set is" using listed [of i] Some k by simp
      have only: "j = i" if "j \<in> set is" "k = (ns, Name j)" for j using listed [of j] that Some by simp
      have "k \<in> (\<lambda>i. (ns, Name i)) ` {i \<in> set is. generated_ingress flt i} \<longleftrightarrow> m = ns \<and> generated_ingress flt i"
      proof
        assume "k \<in> (\<lambda>i. (ns, Name i)) ` {i \<in> set is. generated_ingress flt i}"
        then obtain j where j: "j \<in> set is" "generated_ingress flt j" "k = (ns, Name j)" by blast
        with only [of j] k show "m = ns \<and> generated_ingress flt i" by simp
      next
        assume "m = ns \<and> generated_ingress flt i"
        with here k \<open>Name i = n\<close> show "k \<in> (\<lambda>i. (ns, Name i)) ` {i \<in> set is. generated_ingress flt i}"
          by (intro image_eqI [of _ _ i]) auto
      qed
      with Some k show ?thesis by (auto simp: restrict_map_def)
    qed (simp add: restrict_map_def)
  qed
  with cleanup_loop_Ok [OF loop] show ?thesis by simp
qed

end

interpretation ref: listing_server ref_client ref_lib ref_view ref_oclient
  by unfold_locales (auto simp: ref_client_def ref_view_def ref_list_lists)

text \<open>
  C21: a cleanup that succeeds has deleted exactly the ingresses of the namespace that carry the mark
  of the program and whose name contains the filter, and has changed nothing else.
\<close>

theorem cleanup_effect:
  assumes "listing_server K L view OC"
    and "cleanup K ns flt w = (Ok (), w')" "ns \<noteq> ''''" "keyed (ings (view w))"
  shows "view w' = (view w)\<lparr>ings := (\<lambda>k. case ings (view w) k of
     Some i \<Rightarrow> if fst k = ns \<and> generated_ingress flt i then None else Some i | None \<Rightarrow> None)\<rparr>"
  using assms(2-) by (rule listing_server.cleanup_Ok [OF assms(1)])

definition generated_example :: ingress where
  "generated_example = (new_ingress example_service)\<lparr>Annotations := Some (fmupd ''fabric8.io/generated-by'' ''exposecontroller'' fmempty)\<rparr>"

definition cleanup_state :: ref_state where
  "cleanup_state = lb_state\<lparr>ref_ingresses := [((''dev'', ''web''), generated_example),
     ((''dev'', ''own''), (new_ingress example_service)\<lparr>Name := ''own''\<rparr>)]\<rparr>"

theorem cleanup_effect_witness:
  "\<exists>w'. cleanup ref_client ''dev'' ''we'' cleanup_state = (Ok (), w') \<and>
     ings (ref_view w') (''dev'', ''web'') = None \<and> ings (ref_view w') (''dev'', ''own'') \<noteq> None"
proof -
  have names: "Name generated_example = ''web''" "Namespace generated_example = ''dev''"
    "Namespace (new_ingress example_service) = ''dev''"
    using ingress_state_facts(3) by (simp_all add: generated_example_def new_ingress_def) (simp_all add: example_service_def)
  have gen: "generated_ingress ''we'' generated_example"
    unfolding generated_ingress_def names by (simp add: generated_example_def)
  have own: "\<not> generated_ingress f ((new_ingress example_service)\<lparr>Name := ''own''\<rparr>)" for f
    by (simp add: generated_ingress_def new_ingress_def)
  have keyed: "keyed (ings (ref_view cleanup_state))"
    using names by (auto simp: keyed_def ref_view_def cleanup_state_def split: if_splits)
  have "\<exists>w'. cleanup ref_client ''dev'' ''we'' cleanup_state = (Ok (), w')"
    by (simp add: cleanup_def cleanup_state_def ref_client_def ref_list_def gen own names)
  then obtain w' where w': "cleanup ref_client ''dev'' ''we'' cleanup_state = (Ok (), w')" by blast
  have "(''dev''::string) \<noteq> ''''" by simp
  from cleanup_effect [OF ref.listing_server_axioms w' this keyed] w' show ?thesis
    by (simp add: ref_view_def cleanup_state_def gen own)
qed

definition broken_yaml_lib :: yaml_lib where
  "broken_yaml_lib = ref_yaml_lib\<lparr>document := (\<lambda>s. if s = '''' then NoDocument else SyntaxError (ErrMsg ''bad indentation''))\<rparr>"

definition example_surroundings :: "file_error + string \<Rightarrow> surroundings" where
  "example_surroundings f = \<lparr>read_file = (\<lambda>_. f), default_namespace = Inr ''dev'', client_config = None\<rparr>"

theorem loaded_config_fallback_witness:
  "loaded_config ref_client broken_yaml_lib default_flags (example_surroundings (Inl NotExist)) ''dev'' lb_state =
     Ok (override default_flags DefaultConfig) \<and>
   loaded_config ref_client broken_yaml_lib default_flags (example_surroundings (Inr ''a'')) ''dev'' lb_state =
     Panic ''nil pointer dereference''"
proof -
  have none: "tryFindConfig ref_client broken_yaml_lib ns lb_state = Ok None" for ns
    by (simp add: tryFindConfig_def ref_client_def ref_get_def lb_state_def)
  then have "findTeamConfig ref_client broken_yaml_lib ns lb_state = Ok None" for ns
    by (simp add: findTeamConfig_def ref_client_def split: option.splits)
  moreover have "document broken_yaml_lib '''' = NoDocument" by (simp add: broken_yaml_lib_def)
  moreover have "client_config (example_surroundings f) = None" for f by (simp add: example_surroundings_def)
  moreover have "\<exists>e. Load broken_yaml_lib ''a'' = Err e"
    by (simp add: Load_def unmarshal_pointer_def broken_yaml_lib_def)
  ultimately show ?thesis
    using loaded_config_fallback [of "example_surroundings f" broken_yaml_lib ref_client "''dev''" lb_state default_flags for f] none
    by (auto simp: example_surroundings_def)
qed

end
