(* ===== verification/Lifecycle.thy ===== *)
theory Lifecycle
  imports ExposeController
begin

text \<open>
  The goroutines of a running program as a step relation: the reflector and the loop of
  \<^verbatim>\<open>Controller.Run\<close> with the queue between them, the ticker that ends a one-shot run, the signal
  handler, and \<^verbatim>\<open>main\<close> waiting for the stop channel.
\<close>

section \<open>States\<close>

datatype status = Running | Exited | FatalExit | Crashed string

text \<open>
  The flags say which channels are closed and which goroutines still wait. The last three fields
  record the history: the services of the first listing, the changes handed to the handlers, and
  whether a signal came.
\<close>

record 'w lifecycle = "'w informer" +
  lc_fifo :: fifo
  quit_closed :: bool
  stopCh_closed :: bool
  ticking :: bool
  waiting_signal :: bool
  serving :: bool
  lc_status :: status
  listed :: "service list"
  delivered :: "delta list"
  signalled :: bool

definition Hasrun :: "'w lifecycle \<Rightarrow> bool" where
  "Hasrun s = HasSynced (lc_fifo s)"

text \<open>Closing a closed channel panics, and a panic of these goroutines ends the process.\<close>

definition Stop :: "'w lifecycle \<Rightarrow> 'w lifecycle" where
  "Stop s = (if stopCh_closed s then s\<lparr>lc_status := Crashed ''close of closed channel''\<rparr> else s\<lparr>stopCh_closed := True\<rparr>)"

definition close_quit :: "'w lifecycle \<Rightarrow> 'w lifecycle" where
  "close_quit s = (if quit_closed s then s\<lparr>lc_status := Crashed ''close of closed channel''\<rparr> else s\<lparr>quit_closed := True\<rparr>)"

definition on_tick :: "'w lifecycle \<Rightarrow> 'w lifecycle" where
  "on_tick s = (if Hasrun s then close_quit s else s)"

text \<open>The second case of the \<^verbatim>\<open>select\<close>: stop the controller and the ticker, and return.\<close>

definition on_quit :: "'w lifecycle \<Rightarrow> 'w lifecycle" where
  "on_quit s = (Stop s)\<lparr>ticking := False\<rparr>"

definition on_signal :: "'w lifecycle \<Rightarrow> 'w lifecycle" where
  "on_signal s = (Stop s)\<lparr>waiting_signal := False, signalled := True\<rparr>"

text \<open>\<^verbatim>\<open>registerHandlers\<close>: the server for health checks only returns with an error, which is fatal.\<close>

definition on_serve_error :: "'w lifecycle \<Rightarrow> 'w lifecycle" where
  "on_serve_error s = s\<lparr>lc_status := FatalExit\<rparr>"

text \<open>An action of the reflector; the first listing is remembered.\<close>

fun listing_of :: "reflection \<Rightarrow> service list" where
  "listing_of (Listing known found) = found"
| "listing_of _ = []"

definition on_reflect :: "reflection \<Rightarrow> 'w lifecycle \<Rightarrow> 'w lifecycle" where
  "on_reflect r s =
     s\<lparr>lc_fifo := reflect (in_store s) r (lc_fifo s),
       listed := (if populated (lc_fifo s) then listed s else listing_of r)\<rparr>"

text \<open>
  A pop holds the lock of the queue while the handlers run, so \<^verbatim>\<open>HasSynced\<close> never sees a pop half
  done. The entry is handed to the handlers from its oldest change on.
\<close>

definition on_pop ::
  "('w, 'b) client \<Rightarrow> 'w oclient \<Rightarrow> 'b golib \<Rightarrow> yaml_lib \<Rightarrow> controller \<Rightarrow> 'w lifecycle \<Rightarrow> 'w lifecycle" where
  "on_pop K OC L Y C s =
     (case Pop (lc_fifo s) of
        (None, f) \<Rightarrow> s\<lparr>lc_fifo := f\<rparr>
      | (Some ds, f) \<Rightarrow>
          let i = snd (Process K OC L Y C ds \<lparr>in_store = in_store s, in_strategy = in_strategy s, in_world = in_world s\<rparr>)
          in s\<lparr>in_store := in_store i, in_strategy := in_strategy i, in_world := in_world i, lc_fifo := f,
               delivered := take 1 ds @ delivered s\<rparr>)"

section \<open>Steps\<close>

text \<open>
  The reflector starts with a listing (\<^verbatim>\<open>ListAndWatch\<close>); after that events, resyncs and new listings
  come in any order.
\<close>

inductive run_step ::
  "('w, 'b) client \<Rightarrow> 'w oclient \<Rightarrow> 'b golib \<Rightarrow> yaml_lib \<Rightarrow> controller \<Rightarrow> string \<Rightarrow> 'w lifecycle \<Rightarrow> 'w lifecycle \<Rightarrow> bool"
  for K OC L Y C ns where
  first_list: "lc_status s = Running \<Longrightarrow> \<not> populated (lc_fifo s) \<Longrightarrow> observed ns (in_store s) (Listing known found) \<Longrightarrow>
    run_step K OC L Y C ns s (on_reflect (Listing known found) s)"
| arrive: "lc_status s = Running \<Longrightarrow> populated (lc_fifo s) \<Longrightarrow> observed ns (in_store s) r \<Longrightarrow>
    run_step K OC L Y C ns s (on_reflect r s)"
| pop_entry: "lc_status s = Running \<Longrightarrow> entries (lc_fifo s) \<noteq> [] \<Longrightarrow> run_step K OC L Y C ns s (on_pop K OC L Y C s)"
| tick: "lc_status s = Running \<Longrightarrow> ticking s \<Longrightarrow> run_step K OC L Y C ns s (on_tick s)"
| quit: "lc_status s = Running \<Longrightarrow> ticking s \<Longrightarrow> quit_closed s \<Longrightarrow> run_step K OC L Y C ns s (on_quit s)"
| signal: "lc_status s = Running \<Longrightarrow> waiting_signal s \<Longrightarrow> run_step K OC L Y C ns s (on_signal s)"
| serve_error: "lc_status s = Running \<Longrightarrow> serving s \<Longrightarrow> run_step K OC L Y C ns s (on_serve_error s)"
| return_main: "lc_status s = Running \<Longrightarrow> stopCh_closed s \<Longrightarrow> run_step K OC L Y C ns s (s\<lparr>lc_status := Exited\<rparr>)"

inductive_cases run_stepE: "run_step K OC L Y C ns s s'"

text \<open>The ticker exists in a one-shot run only, the server for health checks in a daemon only.\<close>

definition launch :: "bool \<Rightarrow> strategy \<Rightarrow> 'w \<Rightarrow> 'w lifecycle" where
  "launch daemon st w =
     \<lparr>in_store = Map.empty, in_strategy = st, in_world = w, lc_fifo = NewDeltaFIFO,
      quit_closed = False, stopCh_closed = False, ticking = (\<not> daemon), waiting_signal = True, serving = daemon, lc_status = Running,
      listed = [], delivered = [], signalled = False\<rparr>"

section \<open>What holds in every state\<close>

text \<open>
  The first listing is split into what has been handed over and what waits in the front of the queue,
  in order.
\<close>

definition waits :: "service \<Rightarrow> delta list \<Rightarrow> bool" where
  "waits svc ds \<longleftrightarrow> ds \<noteq> [] \<and> hd ds = Sync svc"

definition front_ok :: "service list \<Rightarrow> delta list list \<Rightarrow> nat \<Rightarrow> delta list \<Rightarrow> bool" where
  "front_ok found q n handed \<longleftrightarrow>
     (\<exists>dn rest front back. found = dn @ rest \<and> q = front @ back \<and> length rest = n \<and> list_all2 waits rest front \<and>
        (\<forall>svc \<in> set dn. Sync svc \<in> set handed))"

lemma front_okI:
  "list_all2 waits rest front \<Longrightarrow> (\<And>svc. svc \<in> set dn \<Longrightarrow> Sync svc \<in> set handed) \<Longrightarrow>
   front_ok (dn @ rest) (front @ rear) (length rest) handed"
  unfolding front_ok_def by blast

lemma front_okE:
  assumes "front_ok found q n handed"
  obtains dn rest front rear where "found = dn @ rest" "q = front @ rear" "n = length rest"
    "list_all2 waits rest front" "\<forall>svc \<in> set dn. Sync svc \<in> set handed"
  using assms unfolding front_ok_def by blast

lemma front_ok_listing: "front_ok found (map (\<lambda>svc. [Sync svc]) found) (length found) handed"
  using front_okI [of found "map (\<lambda>svc. [Sync svc]) found" "[]" handed "[]"]
  by (simp add: list_all2_conv_all_nth waits_def)

lemma waits_kept: "list_all2 waits rest front \<Longrightarrow> list_all2 kept front front' \<Longrightarrow> list_all2 waits rest front'"
  by (rule list_all2_trans) (auto simp: waits_def kept_def)

lemma front_ok_grown:
  assumes "front_ok found q n handed" "grown q q'"
  shows "front_ok found q' n handed"
proof -
  from assms(1) obtain dn rest front rear where r: "found = dn @ rest" "q = front @ rear" "n = length rest"
    "list_all2 waits rest front" "\<forall>svc \<in> set dn. Sync svc \<in> set handed" by (rule front_okE)
  from assms(2) r(2) obtain front' rear' where q': "q' = front' @ rear'" "list_all2 kept front front'"
    by (auto simp: grown_def list_all2_append1)
  show ?thesis unfolding r(1,3) q'(1) by (rule front_okI [OF waits_kept [OF r(4) q'(2)]]) (use r(5) in auto)
qed

lemma front_ok_pop:
  assumes "front_ok found (ds # q) n handed"
  shows "front_ok found q (n - 1) (take 1 ds @ handed)"
proof -
  from assms obtain dn rest front rear where r: "found = dn @ rest" "ds # q = front @ rear" "n = length rest"
    "list_all2 waits rest front" "\<forall>svc \<in> set dn. Sync svc \<in> set handed" by (rule front_okE)
  show ?thesis
  proof (cases rest)
    case Nil
    with r front_okI [of "[]" "[]" found "take 1 ds @ handed" q] show ?thesis by auto
  next
    case (Cons svc rest')
    with r(2,4) obtain front' where q: "waits svc ds" "list_all2 waits rest' front'" "q = front' @ rear"
      by (cases front) auto
    then have "Sync svc \<in> set (take 1 ds)" by (cases ds) (auto simp: waits_def)
    with front_okI [OF q(2), of "dn @ [svc]" "take 1 ds @ handed" rear] r(1,3,5) Cons q(3) show ?thesis by auto
  qed
qed

text \<open>The queue is well formed, empty before the first listing, and the channels are closed only for their reasons.\<close>

definition lifecycle_ok :: "'w lifecycle \<Rightarrow> bool" where
  "lifecycle_ok s \<longleftrightarrow>
     fifo_ok (lc_fifo s) \<and>
     (\<not> populated (lc_fifo s) \<longrightarrow> lc_fifo s = NewDeltaFIFO \<and> in_store s = Map.empty) \<and>
     front_ok (listed s) (waiting (lc_fifo s)) (initialPopulationCount (lc_fifo s)) (delivered s) \<and>
     (quit_closed s \<longrightarrow> Hasrun s) \<and>
     (stopCh_closed s \<longrightarrow> signalled s \<or> quit_closed s) \<and>
     (lc_status s = Exited \<longrightarrow> stopCh_closed s)"

lemma launch_ok: "lifecycle_ok (launch daemon st w)"
  using front_ok_listing [of "[]"] by (simp add: lifecycle_ok_def launch_def NewDeltaFIFO_def entries_def)
    (simp add: fifo_ok_def)

declare on_tick_def [goroutines] close_quit_def [goroutines] on_quit_def [goroutines] on_signal_def [goroutines] Stop_def [goroutines] on_serve_error_def [goroutines]

lemma on_reflect_ok:
  assumes "lifecycle_ok s" "observed ns (in_store s) r" "populated (lc_fifo s)"
  shows "lifecycle_ok (on_reflect r s)"
proof -
  let ?f = "reflect (in_store s) r (lc_fifo s)"
  from assms(1) have ok: "fifo_ok (lc_fifo s)" by (simp add: lifecycle_ok_def)
  have flags: "populated ?f = populated (lc_fifo s)" "initialPopulationCount ?f = initialPopulationCount (lc_fifo s)"
    using reflect_flags [OF ok, of "in_store s" r] flagged_populated [OF assms(3), of r] by simp_all
  with assms reflect_ok [OF ok] front_ok_grown [OF _ grown_reflect [OF ok]] show ?thesis
    by (auto simp: lifecycle_ok_def on_reflect_def Hasrun_def HasSynced_def)
qed

lemma first_list_ok:
  assumes "lifecycle_ok s" "observed ns (in_store s) (Listing known found)" "\<not> populated (lc_fifo s)"
  shows "lifecycle_ok (on_reflect (Listing known found) s)"
proof -
  from assms have new: "lc_fifo s = NewDeltaFIFO" "in_store s = Map.empty" "known = []" "distinct (map meta_key found)"
    by (auto simp: lifecycle_ok_def)
  let ?f = "reflect Map.empty (Listing [] found) NewDeltaFIFO"
  have ok: "fifo_ok ?f" by (rule reflect_ok) simp
  have flags: "populated ?f" "initialPopulationCount ?f = length found"
    using reflect_flags [OF NewDeltaFIFO_ok(1), of Map.empty "Listing [] found"] by (simp_all add: NewDeltaFIFO_def)
  have "waiting ?f = map (\<lambda>svc. [Sync svc]) found" by (simp only: first_listing [OF new(4)]) simp
  with front_ok_listing [of found] flags have "front_ok found (waiting ?f) (initialPopulationCount ?f) h" for h by simp
  with assms new ok flags show ?thesis
    by (auto simp: lifecycle_ok_def on_reflect_def Hasrun_def HasSynced_def simp del: reflect.simps)
qed

lemma on_pop_facts:
  assumes "fifo_ok (lc_fifo s)" "entries (lc_fifo s) = (k, ds) # es"
  obtains f where "Pop (lc_fifo s) = (Some ds, f)" "fifo_ok f" "entries f = es" "populated f = populated (lc_fifo s)"
    "initialPopulationCount f = initialPopulationCount (lc_fifo s) - 1"
    "lc_fifo (on_pop K OC L Y C s) = f" "delivered (on_pop K OC L Y C s) = take 1 ds @ delivered s"
  using Pop_first [OF assms] that by (auto simp: on_pop_def Let_def)

lemma on_pop_same [simp]:
  "lc_status (on_pop K OC L Y C s) = lc_status s" "quit_closed (on_pop K OC L Y C s) = quit_closed s"
  "stopCh_closed (on_pop K OC L Y C s) = stopCh_closed s" "ticking (on_pop K OC L Y C s) = ticking s"
  "waiting_signal (on_pop K OC L Y C s) = waiting_signal s" "serving (on_pop K OC L Y C s) = serving s"
  "signalled (on_pop K OC L Y C s) = signalled s" "listed (on_pop K OC L Y C s) = listed s"
  by (simp_all add: on_pop_def Let_def split: prod.splits option.splits)

lemma on_reflect_same [simp]:
  "lc_status (on_reflect r s) = lc_status s" "quit_closed (on_reflect r s) = quit_closed s"
  "stopCh_closed (on_reflect r s) = stopCh_closed s" "ticking (on_reflect r s) = ticking s"
  "waiting_signal (on_reflect r s) = waiting_signal s" "serving (on_reflect r s) = serving s"
  "signalled (on_reflect r s) = signalled s" "in_store (on_reflect r s) = in_store s"
  "in_world (on_reflect r s) = in_world s" "in_strategy (on_reflect r s) = in_strategy s"
  by (simp_all add: on_reflect_def)

lemma on_pop_ok:
  assumes "lifecycle_ok s" "entries (lc_fifo s) \<noteq> []"
  shows "lifecycle_ok (on_pop K OC L Y C s)"
proof -
  from assms(2) obtain k ds es where e: "entries (lc_fifo s) = (k, ds) # es" by (cases "entries (lc_fifo s)") auto
  from assms(1) have ok: "fifo_ok (lc_fifo s)" "populated (lc_fifo s)" using assms(2) by (auto simp: lifecycle_ok_def)
  show ?thesis
    by (rule on_pop_facts [OF ok(1) e, of K OC L Y C])
      (use assms(1) ok(2) e front_ok_pop [of "listed s" ds "map snd es"] in \<open>auto simp: lifecycle_ok_def Hasrun_def HasSynced_def\<close>)
qed

lemma run_step_ok:
  assumes "run_step K OC L Y C ns s s'" "lifecycle_ok s"
  shows "lifecycle_ok s'"
  using assms(1)
proof cases
  case (first_list known found)
  with assms(2) show ?thesis by (auto intro: first_list_ok)
next
  case (arrive r)
  with assms(2) show ?thesis by (auto intro: on_reflect_ok)
next
  case pop_entry
  with assms(2) show ?thesis by (auto intro: on_pop_ok)
qed (use assms(2) in \<open>auto simp: lifecycle_ok_def Hasrun_def goroutines\<close>)

lemma run_ok: "(run_step K OC L Y C ns)\<^sup>*\<^sup>* s s' \<Longrightarrow> lifecycle_ok s \<Longrightarrow> lifecycle_ok s'"
  by (induction rule: rtranclp_induct) (auto intro: run_step_ok)

text \<open>
  C5: a one-shot run that ends by itself has done its work. When the process has exited and no signal
  came, the services have been listed, and every service of that listing was handed to the handlers.
\<close>

theorem one_shot_complete:
  assumes "(run_step K OC L Y C ns)\<^sup>*\<^sup>* (launch daemon st w) s" "lc_status s = Exited" "\<not> signalled s"
  shows "populated (lc_fifo s) \<and> (\<forall>svc \<in> set (listed s). Sync svc \<in> set (delivered s))"
proof -
  from run_ok [OF assms(1) launch_ok] have ok: "lifecycle_ok s" .
  with assms(2,3) have run: "Hasrun s" by (auto simp: lifecycle_ok_def)
  from ok obtain dn rest where "listed s = dn @ rest" "length rest = initialPopulationCount (lc_fifo s)"
    "\<forall>svc \<in> set dn. Sync svc \<in> set (delivered s)" unfolding lifecycle_ok_def front_ok_def by blast
  with run show ?thesis by (auto simp: Hasrun_def HasSynced_def)
qed

section \<open>Crashes\<close>

text \<open>A namespace without services.\<close>

definition list_none :: "'w lifecycle \<Rightarrow> 'w lifecycle" where
  "list_none s = on_reflect (Listing [] []) s"

lemma list_none_step:
  "lc_status s = Running \<Longrightarrow> \<not> populated (lc_fifo s) \<Longrightarrow> in_store s = Map.empty \<Longrightarrow> run_step K OC L Y C ns s (list_none s)"
  using run_step.first_list [of s ns "[]" "[]"] by (simp add: list_none_def)

lemma list_none_fifo: "lc_fifo s = NewDeltaFIFO \<Longrightarrow> lc_fifo (list_none s) = NewDeltaFIFO\<lparr>populated := True\<rparr>"
  by (simp add: list_none_def on_reflect_def Replace_def NewDeltaFIFO_def)

text \<open>
  C33: a one-shot run can crash by itself. Between two ticks the ticker goroutine may be held up (it
  waits for the queue's lock in \<^verbatim>\<open>Hasrun\<close>); when the next tick is there as soon as \<^verbatim>\<open>quit\<close> is closed,
  the \<^verbatim>\<open>select\<close> may take it first and close \<^verbatim>\<open>quit\<close> again. Likewise a signal after the end of the
  work closes the stop channel a second time.
\<close>

theorem one_shot_double_close:
  "(\<exists>s. (run_step K OC L Y C ns)\<^sup>*\<^sup>* (launch False st w) s \<and> \<not> signalled s \<and> lc_status s = Crashed ''close of closed channel'') \<and>
   (\<exists>s. (run_step K OC L Y C ns)\<^sup>*\<^sup>* (launch False st w) s \<and> signalled s \<and> lc_status s = Crashed ''close of closed channel'')"
proof -
  let ?s0 = "launch False st w"
  let ?s1 = "list_none ?s0"
  let ?s2 = "on_tick ?s1"
  note run = rtranclp.rtrancl_into_rtrancl
  have 1: "(run_step K OC L Y C ns)\<^sup>*\<^sup>* ?s0 ?s1"
    by (rule r_into_rtranclp, rule list_none_step) (simp_all add: launch_def NewDeltaFIFO_def)
  have 2: "(run_step K OC L Y C ns)\<^sup>*\<^sup>* ?s0 ?s2"
    by (rule run [OF 1], rule run_step.tick) (simp_all add: launch_def list_none_def)
  have "lc_fifo ?s1 = NewDeltaFIFO\<lparr>populated := True\<rparr>" by (rule list_none_fifo) (simp add: launch_def)
  then have "Hasrun ?s1" by (simp add: Hasrun_def HasSynced_def NewDeltaFIFO_def)
  then have s2: "lc_status ?s2 = Running" "ticking ?s2" "quit_closed ?s2" "Hasrun ?s2" "\<not> stopCh_closed ?s2"
    "waiting_signal ?s2" "\<not> signalled ?s2"
    by (simp_all add: on_tick_def Hasrun_def close_quit_def list_none_def) (simp_all add: launch_def)
  have 3: "(run_step K OC L Y C ns)\<^sup>*\<^sup>* ?s0 (on_tick ?s2)"
    by (rule run [OF 2], rule run_step.tick) (fact s2)+
  have 4: "(run_step K OC L Y C ns)\<^sup>*\<^sup>* ?s0 (on_quit ?s2)"
    by (rule run [OF 2], rule run_step.quit) (fact s2)+
  have s4: "lc_status (on_quit ?s2) = Running" "waiting_signal (on_quit ?s2)" "stopCh_closed (on_quit ?s2)"
    using s2 by (simp_all add: on_quit_def Stop_def)
  have 5: "(run_step K OC L Y C ns)\<^sup>*\<^sup>* ?s0 (on_signal (on_quit ?s2))"
    by (rule run [OF 4], rule run_step.signal) (fact s4)+
  have "\<not> signalled (on_tick ?s2)" "lc_status (on_tick ?s2) = Crashed ''close of closed channel''"
    using s2 by (simp_all add: on_tick_def [of ?s2] close_quit_def)
  moreover have "signalled (on_signal (on_quit ?s2))" "lc_status (on_signal (on_quit ?s2)) = Crashed ''close of closed channel''"
    using s4 by (simp_all add: on_signal_def Stop_def)
  ultimately show ?thesis using 3 5 by blast
qed

definition daemon_ok :: "'w lifecycle \<Rightarrow> bool" where
  "daemon_ok s \<longleftrightarrow>
     \<not> ticking s \<and> \<not> quit_closed s \<and> (waiting_signal s \<longleftrightarrow> \<not> stopCh_closed s) \<and> (stopCh_closed s \<longleftrightarrow> signalled s) \<and>
     (lc_status s = Running \<or> lc_status s = FatalExit \<or> lc_status s = Exited \<and> signalled s)"

lemma daemon_step_ok:
  assumes "run_step K OC L Y C ns s s'" "daemon_ok s"
  shows "daemon_ok s'"
  using assms by cases (auto simp: daemon_ok_def goroutines)

text \<open>
  C26: a daemon never crashes by closing a channel twice, and it ends only after a signal or because its
  server for health checks failed.
\<close>

theorem daemon_safe:
  assumes "(run_step K OC L Y C ns)\<^sup>*\<^sup>* (launch True st w) s"
  shows "lc_status s = Running \<or> lc_status s = FatalExit \<or> lc_status s = Exited \<and> signalled s"
proof -
  from assms have "daemon_ok s"
  proof (induction rule: rtranclp_induct)
    case base
    show ?case by (simp add: daemon_ok_def launch_def)
  next
    case (step t u)
    then show ?case by (blast intro: daemon_step_ok)
  qed
  then show ?thesis by (simp add: daemon_ok_def)
qed

section \<open>A one-shot run can always end\<close>

definition one_shot_ok :: "'w lifecycle \<Rightarrow> bool" where
  "one_shot_ok s \<longleftrightarrow> (ticking s \<or> stopCh_closed s) \<and> \<not> serving s"

lemma one_shot_step_ok:
  assumes "run_step K OC L Y C ns s s'" "one_shot_ok s" "lc_status s' = Running"
  shows "one_shot_ok s'"
  using assms by cases (auto simp: one_shot_ok_def goroutines split: if_splits)

lemma running_before: "run_step K OC L Y C ns s s' \<Longrightarrow> lc_status s = Running"
  by (erule run_stepE) simp_all

lemma one_shot_run_ok:
  assumes "(run_step K OC L Y C ns)\<^sup>*\<^sup>* (launch False st w) s"
  shows "lc_status s = Running \<longrightarrow> one_shot_ok s"
  using assms
proof (induction rule: rtranclp_induct)
  case (step t u)
  then show ?case using running_before one_shot_step_ok by metis
qed (simp add: one_shot_ok_def launch_def)

text \<open>The informer can work off its queue without touching the other goroutines.\<close>

definition same_goroutines :: "'w lifecycle \<Rightarrow> 'w lifecycle \<Rightarrow> bool" where
  "same_goroutines s s' \<longleftrightarrow>
     lc_status s' = lc_status s \<and> populated (lc_fifo s') = populated (lc_fifo s) \<and> quit_closed s' = quit_closed s \<and>
     stopCh_closed s' = stopCh_closed s \<and> ticking s' = ticking s \<and> signalled s' = signalled s"

lemma informer_drains:
  assumes "lc_status s = Running" "fifo_ok (lc_fifo s)"
  shows "\<exists>s'. (run_step K OC L Y C ns)\<^sup>*\<^sup>* s s' \<and> entries (lc_fifo s') = [] \<and> same_goroutines s s'"
  using assms
proof (induction "entries (lc_fifo s)" arbitrary: s)
  case Nil
  then show ?case by (intro exI [of _ s]) (simp add: same_goroutines_def)
next
  case (Cons e es)
  let ?s1 = "on_pop K OC L Y C s"
  obtain k ds where e: "entries (lc_fifo s) = (k, ds) # es" using Cons.hyps(2) by (metis surj_pair)
  have step: "run_step K OC L Y C ns s ?s1" using Cons.prems(1) e by (auto intro: run_step.pop_entry)
  have s1: "entries (lc_fifo ?s1) = es" "fifo_ok (lc_fifo ?s1)" "same_goroutines s ?s1"
    by (rule on_pop_facts [OF Cons.prems(2) e, of K OC L Y C]; simp add: same_goroutines_def)+
  with Cons.hyps(1) [of ?s1] Cons.prems(1) obtain s' where
    "(run_step K OC L Y C ns)\<^sup>*\<^sup>* ?s1 s'" "entries (lc_fifo s') = []" "same_goroutines ?s1 s'" by (auto simp: same_goroutines_def)
  with step s1(3) show ?case
    by (intro exI [of _ s']) (auto simp: same_goroutines_def intro: converse_rtranclp_into_rtranclp)
qed

lemma synced_run_ends:
  assumes "lc_status s = Running" "one_shot_ok s" "Hasrun s"
  shows "\<exists>s'. (run_step K OC L Y C ns)\<^sup>*\<^sup>* s s' \<and> lc_status s' = Exited \<and> signalled s' = signalled s"
proof -
  let ?R = "run_step K OC L Y C ns"
  let ?ends = "\<lambda>t. \<exists>s'. ?R\<^sup>*\<^sup>* t s' \<and> lc_status s' = Exited \<and> signalled s' = signalled t"
  have before: "?ends t" if "?R t u" "?ends u" "signalled u = signalled t" for t u
    using that by (auto intro: converse_rtranclp_into_rtranclp)
  have returns: "?ends t" if "lc_status t = Running" "stopCh_closed t" for t
    by (rule before [OF run_step.return_main [OF that]]) auto
  have quits: "?ends t" if t: "lc_status t = Running" "ticking t" "quit_closed t" "\<not> stopCh_closed t" for t
    by (rule before [OF run_step.quit [OF t(1-3)]], rule returns) (use t in \<open>simp_all add: on_quit_def Stop_def\<close>)
  have ticks: "?ends t" if t: "lc_status t = Running" "ticking t" "Hasrun t" "\<not> quit_closed t" "\<not> stopCh_closed t" for t
    by (rule before [OF run_step.tick [OF t(1,2)]], rule quits) (use t in \<open>simp_all add: on_tick_def close_quit_def\<close>)
  show ?thesis using assms returns quits ticks unfolding one_shot_ok_def by blast
qed

text \<open>
  C25: no deadlock. From every state a one-shot run can reach and in which the process still runs, it
  can go on to exit without a signal: list the services if that has not happened, work off the queue,
  take a tick, and stop.
\<close>

theorem one_shot_can_end:
  assumes "(run_step K OC L Y C ns)\<^sup>*\<^sup>* (launch False st w) s" "lc_status s = Running"
  shows "\<exists>s'. (run_step K OC L Y C ns)\<^sup>*\<^sup>* s s' \<and> lc_status s' = Exited \<and> signalled s' = signalled s"
proof -
  let ?R = "run_step K OC L Y C ns"
  have "\<exists>s1. ?R\<^sup>*\<^sup>* s s1 \<and> populated (lc_fifo s1) \<and> lc_status s1 = Running \<and> signalled s1 = signalled s"
  proof (cases "populated (lc_fifo s)")
    case False
    with run_ok [OF assms(1) launch_ok] have new: "lc_fifo s = NewDeltaFIFO" "in_store s = Map.empty" by (simp_all add: lifecycle_ok_def)
    with False assms(2) have "?R s (list_none s)" by (intro list_none_step)
    then show ?thesis using assms(2) list_none_fifo [OF new(1)]
      by (intro exI [of _ "list_none s"]) (simp add: r_into_rtranclp, simp add: list_none_def)
  qed (use assms(2) in blast)
  then obtain s1 where s1: "?R\<^sup>*\<^sup>* s s1" "populated (lc_fifo s1)" "lc_status s1 = Running" "signalled s1 = signalled s" by blast
  have "?R\<^sup>*\<^sup>* (launch False st w) s1" using assms(1) s1(1) by auto
  from run_ok [OF this launch_ok] have "fifo_ok (lc_fifo s1)" by (simp add: lifecycle_ok_def)
  from informer_drains [OF s1(3) this] obtain s2 where
    s2: "?R\<^sup>*\<^sup>* s1 s2" "entries (lc_fifo s2) = []" "same_goroutines s1 s2" by blast
  have reached: "?R\<^sup>*\<^sup>* (launch False st w) s2" using assms(1) s1(1) s2(1) by auto
  have run: "lc_status s2 = Running" "populated (lc_fifo s2)" using s1 s2(3) by (simp_all add: same_goroutines_def)
  from run_ok [OF reached launch_ok] s2(2) have "initialPopulationCount (lc_fifo s2) = 0"
    by (auto simp: lifecycle_ok_def front_ok_def)
  with run have "Hasrun s2" by (simp add: Hasrun_def HasSynced_def)
  moreover have "one_shot_ok s2" using one_shot_run_ok [OF reached] run by blast
  ultimately obtain s' where "?R\<^sup>*\<^sup>* s2 s'" "lc_status s' = Exited" "signalled s' = signalled s2"
    using synced_run_ends run(1) by blast
  with s1 s2 show ?thesis by (intro exI [of _ s']) (auto simp: same_goroutines_def)
qed

section \<open>An example run\<close>

abbreviation example_run_step :: "ref_state lifecycle \<Rightarrow> ref_state lifecycle \<Rightarrow> bool" where
  "example_run_step \<equiv> run_step ref_client ref_oclient ref_lib ref_yaml_lib example_controller ''dev''"

definition listed_run :: "bool \<Rightarrow> ref_state lifecycle" where
  "listed_run daemon = on_reflect (Listing [] [marked_service]) (launch daemon LoadBalancerStrategy watch_state)"

lemma listed_run_reached: "example_run_step\<^sup>*\<^sup>* (launch daemon LoadBalancerStrategy watch_state) (listed_run daemon)"
  unfolding listed_run_def
  by (rule r_into_rtranclp, rule run_step.first_list)
    (simp_all add: launch_def NewDeltaFIFO_def served_def watched_names)

lemma listed_run_facts:
  "lc_status (listed_run daemon) = Running" "ticking (listed_run daemon) = (\<not> daemon)" "\<not> quit_closed (listed_run daemon)"
  "\<not> stopCh_closed (listed_run daemon)" "\<not> signalled (listed_run daemon)" "waiting_signal (listed_run daemon)"
  by (simp_all add: listed_run_def) (simp_all add: launch_def)

lemma listed_run_listed: "listed (listed_run daemon) = [marked_service]"
  by (simp add: listed_run_def on_reflect_def launch_def NewDeltaFIFO_def)

lemma listed_run_fifo:
  "fifo_ok (lc_fifo (listed_run daemon))"
  "entries (lc_fifo (listed_run daemon)) = [(meta_key marked_service, [Sync marked_service])]"
  "populated (lc_fifo (listed_run daemon))" "initialPopulationCount (lc_fifo (listed_run daemon)) = 1"
proof -
  have f: "lc_fifo (listed_run daemon) = reflect Map.empty (Listing [] [marked_service]) NewDeltaFIFO"
    by (simp add: listed_run_def on_reflect_def launch_def)
  show "fifo_ok (lc_fifo (listed_run daemon))" unfolding f by (rule reflect_ok) simp
  show "entries (lc_fifo (listed_run daemon)) = [(meta_key marked_service, [Sync marked_service])]"
    unfolding f using first_listing [of "[marked_service]"] by simp
  show "populated (lc_fifo (listed_run daemon))" "initialPopulationCount (lc_fifo (listed_run daemon)) = 1"
    unfolding f using reflect_flags [OF NewDeltaFIFO_ok(1), of Map.empty "Listing [] [marked_service]"]
    by (simp_all add: NewDeltaFIFO_def)
qed

definition handled_run :: "bool \<Rightarrow> ref_state lifecycle" where
  "handled_run daemon = on_pop ref_client ref_oclient ref_lib ref_yaml_lib example_controller (listed_run daemon)"

lemma handled_run_facts:
  "example_run_step\<^sup>*\<^sup>* (launch daemon LoadBalancerStrategy watch_state) (handled_run daemon)"
  "lc_status (handled_run daemon) = Running" "Hasrun (handled_run daemon)" "ticking (handled_run daemon) = (\<not> daemon)"
  "\<not> quit_closed (handled_run daemon)" "\<not> stopCh_closed (handled_run daemon)" "\<not> signalled (handled_run daemon)"
  "listed (handled_run daemon) = [marked_service]" "waiting_signal (handled_run daemon)"
proof -
  have "example_run_step (listed_run daemon) (handled_run daemon)"
    unfolding handled_run_def by (rule run_step.pop_entry) (simp_all add: listed_run_facts listed_run_fifo)
  with listed_run_reached show "example_run_step\<^sup>*\<^sup>* (launch daemon LoadBalancerStrategy watch_state) (handled_run daemon)"
    by (rule rtranclp.rtrancl_into_rtrancl)
  show "Hasrun (handled_run daemon)"
    by (rule on_pop_facts [OF listed_run_fifo(1,2), of daemon ref_client ref_oclient ref_lib ref_yaml_lib example_controller])
      (simp add: handled_run_def Hasrun_def HasSynced_def listed_run_fifo)
qed (simp_all add: handled_run_def listed_run_facts listed_run_listed)

theorem one_shot_complete_witness:
  "\<exists>s. example_run_step\<^sup>*\<^sup>* (launch False LoadBalancerStrategy watch_state) s \<and> lc_status s = Exited \<and>
     listed s = [marked_service] \<and> Sync marked_service \<in> set (delivered s)"
proof -
  let ?s3 = "on_tick (handled_run False)"
  let ?s4 = "on_quit ?s3"
  note facts = handled_run_facts [of False]
  have s3: "?s3 = (handled_run False)\<lparr>quit_closed := True\<rparr>" using facts by (simp add: on_tick_def close_quit_def)
  have s4: "?s4 = (handled_run False)\<lparr>quit_closed := True, stopCh_closed := True, ticking := False\<rparr>"
    using facts by (simp add: s3 on_quit_def Stop_def)
  note run = rtranclp.rtrancl_into_rtrancl [where r = example_run_step]
  have "example_run_step\<^sup>*\<^sup>* (launch False LoadBalancerStrategy watch_state) ?s3"
    by (rule run [OF facts(1)], rule run_step.tick) (simp_all add: facts)
  then have "example_run_step\<^sup>*\<^sup>* (launch False LoadBalancerStrategy watch_state) ?s4"
    by (rule run, intro run_step.quit) (simp_all add: s3 facts)
  then have reached: "example_run_step\<^sup>*\<^sup>* (launch False LoadBalancerStrategy watch_state) (?s4\<lparr>lc_status := Exited\<rparr>)"
    by (rule run, intro run_step.return_main) (simp_all add: s4 facts)
  have end_state: "lc_status (?s4\<lparr>lc_status := Exited\<rparr>) = Exited" "\<not> signalled (?s4\<lparr>lc_status := Exited\<rparr>)"
    "listed (?s4\<lparr>lc_status := Exited\<rparr>) = [marked_service]"
    by (simp_all add: s4 facts)
  from one_shot_complete [OF reached end_state(1,2)] end_state(3)
  have "Sync marked_service \<in> set (delivered (?s4\<lparr>lc_status := Exited\<rparr>))" by simp
  with reached end_state show ?thesis by blast
qed

theorem one_shot_can_end_witness:
  "\<exists>s'. example_run_step\<^sup>*\<^sup>* (listed_run False) s' \<and> lc_status s' = Exited \<and> \<not> signalled s'"
proof -
  from one_shot_can_end [OF listed_run_reached listed_run_facts(1)] listed_run_facts(5) show ?thesis by blast
qed

theorem daemon_safe_witness:
  "lc_status (on_signal (handled_run True)) = Running \<and> stopCh_closed (on_signal (handled_run True))"
proof -
  note facts = handled_run_facts [of True]
  have "example_run_step\<^sup>*\<^sup>* (launch True LoadBalancerStrategy watch_state) (on_signal (handled_run True))"
    by (rule rtranclp.rtrancl_into_rtrancl [OF facts(1)], rule run_step.signal) (simp_all add: facts)
  from daemon_safe [OF this] facts show ?thesis by (auto simp: on_signal_def Stop_def)
qed

section \<open>The informer within the program\<close>

definition system_of :: "'w lifecycle \<Rightarrow> 'w system" where
  "system_of s = \<lparr>in_store = in_store s, in_strategy = in_strategy s, in_world = in_world s, queue = waiting (lc_fifo s)\<rparr>"

lemma system_of_simps [simp]:
  "in_store (system_of s) = in_store s" "in_world (system_of s) = in_world s" "queue (system_of s) = waiting (lc_fifo s)"
  by (simp_all add: system_of_def)

text \<open>Every step of the program is a step of the informer or leaves it alone.\<close>

lemma on_reflect_refines:
  assumes "fifo_ok (lc_fifo s)" "observed ns (in_store s) r"
  shows "system_step K OC L Y C ns (system_of s) (system_of (on_reflect r s))"
proof -
  have "system_of (on_reflect r s) = (system_of s)\<lparr>queue := waiting (reflect (in_store s) r (lc_fifo s))\<rparr>"
    by (simp add: system_of_def on_reflect_def)
  moreover have "d \<in> set (concat (queue (system_of s))) \<or> from_watch ns (in_store (system_of s)) d"
    if "d \<in> set (concat (waiting (reflect (in_store s) r (lc_fifo s))))" for d
    using reflect_changes [OF assms(1) that] observed_changes [OF assms(2)] by auto
  ultimately show ?thesis by (simp only: system_step.reflect)
qed

lemma on_pop_refines:
  assumes "fifo_ok (lc_fifo s)" "entries (lc_fifo s) \<noteq> []"
  shows "pop_step K OC L Y C (system_of s) (system_of (on_pop K OC L Y C s))"
proof -
  from assms(2) obtain k ds es where e: "entries (lc_fifo s) = (k, ds) # es" by (cases "entries (lc_fifo s)") auto
  obtain f where f: "Pop (lc_fifo s) = (Some ds, f)" "entries f = es" using on_pop_facts [OF assms(1) e] by blast
  then have "system_of (on_pop K OC L Y C s) = with_queue (snd (Process K OC L Y C ds (informer_of (system_of s)))) (map snd es)"
    by (simp add: system_of_def with_queue_def on_pop_def informer_of_def Let_def)
  with pop_step.pop [of "system_of s" ds "map snd es"] e show ?thesis by simp
qed

interpretation life: step_refinement "run_step K OC L Y C ns" "system_step K OC L Y C ns" system_of lifecycle_ok
  for K :: "('w, 'b) client" and OC L Y C ns
proof
  fix s s' :: "'w lifecycle"
  let ?S = "system_step K OC L Y C ns"
  assume step: "run_step K OC L Y C ns s s'" and inv: "lifecycle_ok s"
  then have ok: "fifo_ok (lc_fifo s)" by (simp add: lifecycle_ok_def)
  from step have "?S\<^sup>*\<^sup>* (system_of s) (system_of s')"
  proof cases
    case (first_list known found)
    with on_reflect_refines [OF ok] show ?thesis by blast
  next
    case (arrive r)
    with on_reflect_refines [OF ok] show ?thesis by blast
  next
    case pop_entry
    with system_step.process [OF on_pop_refines [OF ok]] show ?thesis by blast
  qed (simp_all add: system_of_def goroutines)
  with run_step_ok [OF step inv] show "lifecycle_ok s' \<and> ?S\<^sup>*\<^sup>* (system_of s) (system_of s')" by auto
qed

lemma system_of_launch: "system_of (launch daemon st w) = start st w"
  by (simp add: system_of_def launch_def start_def)

lemma launched_informer:
  "(run_step K OC L Y C ns)\<^sup>*\<^sup>* (launch daemon st w) s \<Longrightarrow> (system_step K OC L Y C ns)\<^sup>*\<^sup>* (start st w) (system_of s)"
  using life.run_refines [of K OC L Y C ns "launch daemon st w" s] launch_ok [of daemon st w] by (simp add: system_of_launch)

section \<open>The state of the informer within the program\<close>

text \<open>
  C22: invariant of the running program. In every state it can reach, the keys of the queue and of its
  items agree and no item is empty; the store holds each service under the key that its namespace and
  name give, all of them services of the watched namespace; every waiting change names such a
  service, so a deletion marker always has a key that \<^verbatim>\<open>DeleteFunc\<close> can split; and until the first
  listing store and queue are empty.
\<close>

theorem program_invariant:
  assumes "app_server K L view OC" "tidy (view w)"
    and "(run_step K OC L Y C ns)\<^sup>*\<^sup>* (launch daemon st w) s"
  shows "fifo_ok (lc_fifo s) \<and> store_ok ns (in_store s) \<and>
    (\<forall>d \<in> set (concat (waiting (lc_fifo s))). delta_ok ns d) \<and>
    (\<forall>key x. Deleted (DeletedFinalStateUnknown key x) \<in> set (concat (waiting (lc_fifo s))) \<longrightarrow> length (Split key CHR ''/'') = 2) \<and>
    (\<not> populated (lc_fifo s) \<longrightarrow> lc_fifo s = NewDeltaFIFO \<and> in_store s = Map.empty)"
  using informer_invariant [OF assms(1) launched_informer [OF assms(3)] assms(2)] run_ok [OF assms(3) launch_ok]
  by (simp add: lifecycle_ok_def system_ok_def)

theorem program_invariant_witness:
  "store_ok ''dev'' (in_store (handled_run False)) \<and> fifo_ok (lc_fifo (handled_run False)) \<and> populated (lc_fifo (handled_run False))"
  using program_invariant [OF ref.app_server_axioms watch_state_tidy handled_run_facts(1)] handled_run_facts(3)
  by (simp add: Hasrun_def HasSynced_def)

end
