(* ===== verification/Exposure.thy ===== *)
theory Exposure
  imports Informer
begin

text \<open>
  The components together, from the first listing to the stored objects: the reflector fills the
  queue, the loop empties it, \<^verbatim>\<open>AddFunc\<close> calls the strategy and then updates the related resources, and
  what the strategy promised of a service still holds when the loop has nothing left to do.
\<close>

section \<open>The promise of a strategy\<close>

text \<open>
  The promise of the configured strategy for a service, between the states before and after a run
  and the service stored then. The secret name of the ambassador strategy may have been set by an
  earlier service of the run.
\<close>

definition strategy_exposed :: "'b golib \<Rightarrow> strategy \<Rightarrow> cluster \<Rightarrow> cluster \<Rightarrow> service \<Rightarrow> service \<Rightarrow> bool" where
  "strategy_exposed L st V V' svc t \<longleftrightarrow>
     (case st of
        LoadBalancerStrategy \<Rightarrow> LoadBalancer_exposed svc t
      | NodePortStrategy s \<Rightarrow> NodePort_exposed s svc t
      | IngressStrategy s \<Rightarrow> Ingress_exposed L s V V' svc t
      | RouteStrategy s \<Rightarrow> Route_exposed s V V' svc t
      | AmbassadorStrategy s \<Rightarrow> \<exists>secret. Ambassador_exposed L (s\<lparr>am_tlsSecretName := secret\<rparr>) svc t)"

text \<open>A strategy never changes during a run, except for the secret name of the ambassador strategy.\<close>

definition same_strategy :: "strategy \<Rightarrow> strategy \<Rightarrow> bool" where
  "same_strategy st st' \<longleftrightarrow>
     (case (st, st') of
        (AmbassadorStrategy s, AmbassadorStrategy s') \<Rightarrow> s'\<lparr>am_tlsSecretName := ''''\<rparr> = s\<lparr>am_tlsSecretName := ''''\<rparr>
      | _ \<Rightarrow> st' = st)"

lemma same_strategy_refl [simp]: "same_strategy st st"
  by (simp add: same_strategy_def split: strategy.splits)

lemma same_strategy_trans: "same_strategy st st1 \<Longrightarrow> same_strategy st1 st2 \<Longrightarrow> same_strategy st st2"
  by (auto simp: same_strategy_def split: strategy.splits)

lemma same_secret:
  assumes "s'\<lparr>am_tlsSecretName := ''''\<rparr> = s\<lparr>am_tlsSecretName := ''''\<rparr>"
  shows "s'\<lparr>am_tlsSecretName := x\<rparr> = s\<lparr>am_tlsSecretName := x\<rparr>"
  using arg_cong [OF assms, of "\<lambda>s. s\<lparr>am_tlsSecretName := x\<rparr>"] by simp

lemma strategy_exposed_same: "same_strategy st st' \<Longrightarrow> strategy_exposed L st' = strategy_exposed L st"
proof -
  assume same: "same_strategy st st'"
  show ?thesis
  proof (cases st)
    case (AmbassadorStrategy s)
    with same obtain s' where st': "st' = AmbassadorStrategy s'" "s'\<lparr>am_tlsSecretName := ''''\<rparr> = s\<lparr>am_tlsSecretName := ''''\<rparr>"
      by (auto simp: same_strategy_def split: strategy.splits)
    from same_secret [OF st'(2)] show ?thesis
      by (simp add: strategy_exposed_def fun_eq_iff AmbassadorStrategy st'(1))
  qed (use same in \<open>simp_all add: same_strategy_def split: strategy.splits\<close>)
qed

lemma Ambassador_Add_same:
  "Ambassador_Add K L s svc w = (r, svc', s', w') \<Longrightarrow> s'\<lparr>am_tlsSecretName := ''''\<rparr> = s\<lparr>am_tlsSecretName := ''''\<rparr>"
  using Ambassador_config_strategy [of L s svc]
  by (auto simp: Ambassador_Add_def Ambassador_fixSecret_def Let_def split: prod.splits outcome.splits option.splits sum.splits if_splits)

lemma strategy_Add_same: "strategy_Add K OC L st svc w = (r, svc', st', w') \<Longrightarrow> same_strategy st st'"
  by (auto simp: strategy_Add_def same_strategy_def dest: Ambassador_Add_same split: strategy.splits prod.splits)

text \<open>The states in which the promises are made: objects are stored under their own names.\<close>

definition clean :: "cluster \<Rightarrow> bool" where
  "clean V \<longleftrightarrow> tidy V \<and> ingresses_keyed V"

lemma clean_routes: "clean V \<Longrightarrow> routes_keyed V"
  by (auto simp: clean_def tidy_def keyed_def routes_keyed_def)

context openshift_server
begin

lemma strategy_Add_exposes:
  assumes "strategy_Add K OC L st svc w = (Ok (), svc', st', w')" "svcs (view w) (service_key svc) = Some svc"
    and "clean (view w)"
  shows "\<exists>t. svcs (view w') (service_key svc) = Some t \<and> strategy_exposed L st (view w) (view w') svc t"
proof (cases st)
  case (AmbassadorStrategy s)
  with assms(1) obtain s' where "Ambassador_add_step K L svc (w, s) = (Ok (), w', s')"
    by (auto simp: strategy_Add_def Ambassador_add_step_def split: prod.splits)
  from amb.add_exposes [OF this] assms(2) obtain t where "svcs (view w') (service_key svc) = Some t"
    "Ambassador_exposed L s svc t" by auto
  with AmbassadorStrategy show ?thesis
    by (intro exI [of _ t]) (simp add: strategy_exposed_def exI [of _ "am_tlsSecretName s"])
qed (use assms clean_routes [OF assms(3)] lb.add_exposes np.add_exposes ing.add_exposes rt.add_exposes in
    \<open>auto simp: strategy_Add_def strategy_exposed_def clean_def split: prod.splits\<close>)

end

section \<open>What a run leaves alone\<close>

text \<open>
  Outside a set of services nothing has changed: not the services, not the routes of their names, and
  not the paths that lead to them in the first rule of any ingress.
\<close>

definition others_kept :: "key set \<Rightarrow> cluster \<Rightarrow> cluster \<Rightarrow> bool" where
  "others_kept S V V' \<longleftrightarrow>
     (\<forall>ns m. (ns, m) \<in> S \<or> svcs V' (ns, m) = svcs V (ns, m) \<and> rts V' (ns, m) = rts V (ns, m) \<and>
        (\<forall>n. own_paths V' ns n m = own_paths V ns n m))"

lemma others_keptD:
  assumes "others_kept S V V'" "service_key x \<notin> S"
  shows "svcs V' (service_key x) = svcs V (service_key x)" "rts V' (service_key x) = rts V (service_key x)"
    "own_paths V' (Namespace x) n (Name x) = own_paths V (Namespace x) n (Name x)"
  using assms by (auto simp: others_kept_def)

lemma others_kept_trans: "others_kept S V V1 \<Longrightarrow> others_kept T V1 V2 \<Longrightarrow> others_kept (S \<union> T) V V2"
  by (simp add: others_kept_def) metis

lemma others_kept_mono: "others_kept S V V' \<Longrightarrow> S \<subseteq> T \<Longrightarrow> others_kept T V V'"
  by (auto simp: others_kept_def)

lemma same_exposure_kept: "same_exposure V V' \<Longrightarrow> others_kept S V V'"
  by (simp add: same_exposure_def others_kept_def own_paths_def)

lemma others_kept_refl [simp]: "others_kept S V V"
  by (simp add: others_kept_def)

text \<open>A promise depends on the states only through what concerns the service itself.\<close>

lemma strategy_exposed_cong:
  assumes "strategy_exposed L st V V' svc t"
    and "rts W (service_key svc) = rts V (service_key svc)" "rts W' (service_key svc) = rts V' (service_key svc)"
    and "\<And>n. own_paths W (Namespace svc) n (Name svc) = own_paths V (Namespace svc) n (Name svc)"
    and "\<And>n. own_paths W' (Namespace svc) n (Name svc) = own_paths V' (Namespace svc) n (Name svc)"
  shows "strategy_exposed L st W W' svc t"
  using assms(1) unfolding strategy_exposed_def Ingress_exposed_def Route_exposed_def assms(2-) .

lemma strategy_exposed_later:
  "strategy_exposed L st V V1 svc t \<Longrightarrow> others_kept S V1 V' \<Longrightarrow> service_key svc \<notin> S \<Longrightarrow> strategy_exposed L st V V' svc t"
  by (erule strategy_exposed_cong) (simp_all add: others_keptD)

lemma strategy_exposed_earlier:
  "strategy_exposed L st V1 V' svc t \<Longrightarrow> others_kept S V V1 \<Longrightarrow> service_key svc \<notin> S \<Longrightarrow> strategy_exposed L st V V' svc t"
  by (erule strategy_exposed_cong) (simp_all add: others_keptD)

context openshift_server
begin

text \<open>The strategies that patch or update the service write no ingress and no route.\<close>

lemma service_only:
  "ings (view (snd (LoadBalancer_Add K L svc w))) = ings (view w)" "rts (view (snd (LoadBalancer_Add K L svc w))) = rts (view w)"
  "ings (view (snd (NodePort_Add K L np svc w))) = ings (view w)" "rts (view (snd (NodePort_Add K L np svc w))) = rts (view w)"
  "ings (view (snd (snd (snd (Ambassador_Add K L am svc w))))) = ings (view w)"
  "rts (view (snd (snd (snd (Ambassador_Add K L am svc w))))) = rts (view w)"
proof -
  obtain r svc' am' w' where add: "Ambassador_Add K L am svc w = (r, svc', am', w')" using prod_cases4 by blast
  then have "ings (view w') = ings (view w) \<and> rts (view w') = rts (view w)"
    by (cases rule: Ambassador_Add_cases) (auto dest!: update_service refused_update_service)
  with add show "ings (view (snd (snd (snd (Ambassador_Add K L am svc w))))) = ings (view w)"
    "rts (view (snd (snd (snd (Ambassador_Add K L am svc w))))) = rts (view w)" by simp_all
qed (simp_all add: LoadBalancer_Add_def NodePort_Add_def patchService_snd_others split: list.splits)

lemma Ingress_apply_rts: "rts (view (snd (Ingress_apply K L s svc create i w))) = rts (view w)"
proof -
  have "rts (view w1) = rts (view w)"
    if "(if create then ingress_create K ns j w else ingress_update K ns' j w) = (r, w1)" for ns ns' j r w1
    using that by (cases r)
      (auto dest!: create_ingress update_ingress refused_create_ingress refused_update_ingress split: if_splits)
  then show ?thesis
    by (auto simp: Ingress_apply_def patchService_snd_others split: outcome.splits option.splits prod.splits sum.splits)
qed

lemma Ingress_Add_rts: "rts (view (snd (Ingress_Add K L s svc w))) = rts (view w)"
  by (simp add: Ingress_Add_def Ingress_apply_rts split: sum.splits api_error.splits)

lemma strategy_Add_kept:
  assumes "clean (view w)"
  shows "others_kept {service_key svc} (view w) (view (snd (snd (snd (strategy_Add K OC L st svc w)))))"
    and "ingresses_keyed (view (snd (snd (snd (strategy_Add K OC L st svc w)))))"
proof -
  let ?w = "snd (snd (snd (strategy_Add K OC L st svc w)))"
  have keyed: "ingresses_keyed (view w)" using assms by (simp add: clean_def)
  have "rts (view ?w) k = rts (view w) k" if "k \<noteq> service_key svc" for k
    using that Route_Add_others(1) [OF clean_routes [OF assms] that]
    by (cases st) (simp_all add: strategy_Add_world service_only Ingress_Add_rts)
  moreover have "own_paths (view ?w) ns n m = own_paths (view w) ns n m" if "(ns, m) \<noteq> service_key svc" for ns n m
    using that Ingress_Add_others(2) [OF keyed that] Route_Add_others(2) [OF clean_routes [OF assms]]
    by (cases st) (simp_all add: strategy_Add_world service_only own_paths_def)
  moreover have "svcs (view ?w) k = svcs (view w) k" if "k \<noteq> service_key svc" for k
    using that by (rule strategy_Add_frame)
  ultimately show "others_kept {service_key svc} (view w) (view ?w)" unfolding others_kept_def by (metis singletonI)
  show "ingresses_keyed (view ?w)"
    using keyed Ingress_Add_others(1) [OF keyed] Route_Add_others(2) [OF clean_routes [OF assms]]
    by (cases st) (simp_all add: strategy_Add_world service_only ingresses_keyed_def)
qed

end

section \<open>One service\<close>

text \<open>The services \<^verbatim>\<open>AddFunc\<close> handles: marked, and on the white list if there is one.\<close>

definition handled :: "controller \<Rightarrow> service \<Rightarrow> bool" where
  "handled C svc \<longleftrightarrow> (exposed_by_mark svc \<or> injected svc) \<and> isServiceWhitelisted (Name svc) (ct_config C)"

lemma AddFunc_ignores: "\<not> handled C svc \<Longrightarrow> AddFunc K OC L Y C svc st w = (Ok (), svc, st, w)"
  by (auto simp: AddFunc_def handled_def expose_service_def)

context app_server
begin

lemma AddFunc_exposes:
  assumes "AddFunc K OC L Y C svc st w = (r, svc', st', w')" "handled C svc" "Namespace svc \<noteq> ''''"
    and "clean (view w)" "svcs (view w) (service_key svc) = Some svc"
  shows "same_strategy st st'" "clean (view w')" "others_kept {service_key svc} (view w) (view w')"
    and "fst (strategy_Add K OC L st svc w) = Ok () \<Longrightarrow>
      \<exists>t. svcs (view w') (service_key svc) = Some t \<and> strategy_exposed L st (view w) (view w') svc t"
proof -
  obtain r1 svc1 st1 w1 where add: "strategy_Add K OC L st svc w = (r1, svc1, st1, w1)" using prod_cases4 by blast
  have "controller_oc C OC = None \<or> controller_oc C OC = Some OC" by (simp add: controller_oc_def)
  note related = updateRelatedResources_same [OF this, of w1 Y svc1 "ct_config C" "ct_authorizeURL C"]
  from assms(1,2) add related have st: "st' = st1" and same: "same_exposure (view w1) (view w')"
    by (auto simp: AddFunc_def handled_def expose_service_def split: outcome.splits prod.splits if_splits)
  show "same_strategy st st'" using strategy_Add_same [OF add] st by simp
  note kept = strategy_Add_kept [OF assms(4), where st = st and svc = svc, unfolded add snd_conv]
  show "others_kept {service_key svc} (view w) (view w')"
    using others_kept_trans [OF kept(1) same_exposure_kept [OF same]] by simp
  have "tidy (view w')" using within_AddFunc [OF assms(3,1)] assms(4) by (simp add: within_def clean_def)
  with kept(2) same show "clean (view w')" by (simp add: clean_def ingresses_keyed_def same_exposure_def)
  show "\<exists>t. svcs (view w') (service_key svc) = Some t \<and> strategy_exposed L st (view w) (view w') svc t"
    if "fst (strategy_Add K OC L st svc w) = Ok ()"
  proof -
    from that add have "strategy_Add K OC L st svc w = (Ok (), svc1, st1, w1)" by simp
    from strategy_Add_exposes [OF this assms(5,4)] obtain t where t: "svcs (view w1) (service_key svc) = Some t"
      "strategy_exposed L st (view w) (view w1) svc t" by blast
    from strategy_exposed_later [OF t(2) same_exposure_kept [OF same, of "{}"]] t(1) same show ?thesis
      by (simp add: same_exposure_def)
  qed
qed

end

section \<open>The first listing\<close>

text \<open>
  The services of a listing for which the strategy returns an error (the controller logs it and goes
  on), when the loop delivers them one after the other.
\<close>

fun refused ::
  "('w, 'b) client \<Rightarrow> 'w oclient \<Rightarrow> 'b golib \<Rightarrow> yaml_lib \<Rightarrow> controller \<Rightarrow> service list \<Rightarrow> 'w informer \<Rightarrow> service list" where
  "refused K OC L Y C [] s = []"
| "refused K OC L Y C (svc # found) s =
     (if handled C svc \<and> fst (strategy_Add K OC L (in_strategy s) svc (in_world s)) \<noteq> Ok () then [svc] else []) @
     refused K OC L Y C found (snd (deliver K OC L Y C svc s))"

text \<open>What becomes of one handled service, and of everything else, when a listing has been worked off.\<close>

definition exposed_unless ::
  "'b golib \<Rightarrow> strategy \<Rightarrow> service list \<Rightarrow> cluster \<Rightarrow> cluster \<Rightarrow> service \<Rightarrow> bool" where
  "exposed_unless L st bad V V' svc \<longleftrightarrow>
     svc \<in> set bad \<or> (\<exists>t. svcs V' (service_key svc) = Some t \<and> strategy_exposed L st V V' svc t)"

definition listing_handled ::
  "'b golib \<Rightarrow> controller \<Rightarrow> strategy \<Rightarrow> service list \<Rightarrow> service list \<Rightarrow> cluster \<Rightarrow> cluster \<Rightarrow> bool" where
  "listing_handled L C st found bad V V' \<longleftrightarrow>
     list_all (exposed_unless L st bad V V') (filter (handled C) found) \<and>
     others_kept (service_key ` set (filter (handled C) found)) V V'"

lemma exposed_unless_later:
  "exposed_unless L st bad V V1 svc \<Longrightarrow> others_kept S V1 V' \<Longrightarrow> service_key svc \<notin> S \<Longrightarrow> exposed_unless L st bad V V' svc"
  unfolding exposed_unless_def by (metis others_keptD(1) strategy_exposed_later)

lemma exposed_unless_earlier:
  "exposed_unless L st bad V1 V' svc \<Longrightarrow> others_kept S V V1 \<Longrightarrow> service_key svc \<notin> S \<Longrightarrow> set bad \<subseteq> set bad' \<Longrightarrow>
   exposed_unless L st bad' V V' svc"
  by (auto simp: exposed_unless_def dest: strategy_exposed_earlier)

lemma listing_handled_Cons:
  assumes "listing_handled L C st found bad V1 V'" "service_key svc \<notin> service_key ` set found" "set bad \<subseteq> set bad'"
    and "handled C svc" "others_kept {service_key svc} V V1" "exposed_unless L st bad' V V1 svc"
  shows "listing_handled L C st (svc # found) bad' V V'"
proof -
  let ?rest = "filter (handled C) found"
  from assms(1) have rest: "list_all (exposed_unless L st bad V1 V') ?rest" "others_kept (service_key ` set ?rest) V1 V'"
    by (simp_all add: listing_handled_def)
  have "service_key svc \<notin> service_key ` set ?rest" using assms(2) by auto
  then have "exposed_unless L st bad' V V' svc" by (rule exposed_unless_later [OF assms(6) rest(2)])
  moreover have "exposed_unless L st bad' V V' x" if "x \<in> set ?rest" for x
  proof (rule exposed_unless_earlier [OF _ assms(5) _ assms(3)])
    show "exposed_unless L st bad V1 V' x" using rest(1) that by (simp add: list_all_iff)
    show "service_key x \<notin> {service_key svc}"
    proof
      assume "service_key x \<in> {service_key svc}"
      then have "service_key svc = service_key x" by simp
      moreover from that have "x \<in> set found" by simp
      then have "service_key x \<in> service_key ` set found" by (rule imageI)
      ultimately have "service_key svc \<in> service_key ` set found" by (simp only:)
      with assms(2) show False by contradiction
    qed
  qed
  moreover have "others_kept (service_key ` set (filter (handled C) (svc # found))) V V'"
    using others_kept_trans [OF assms(5) rest(2)] assms(4) by simp
  ultimately show ?thesis using assms(4) by (simp add: listing_handled_def list_all_iff)
qed

lemma listing_handled_skip: "\<not> handled C svc \<Longrightarrow> listing_handled L C st (svc # found) bad V V' = listing_handled L C st found bad V V'"
  by (simp add: listing_handled_def)

lemma listing_handled_same: "same_strategy st st' \<Longrightarrow> listing_handled L C st' found bad V V' = listing_handled L C st found bad V V'"
  by (auto simp: listing_handled_def exposed_unless_def strategy_exposed_same list_all_iff)

lemma service_key_meta_key: "service_key svc = service_key svc' \<Longrightarrow> meta_key svc = meta_key svc'"
  by (simp add: meta_key_def)

lemma meta_key_apart:
  assumes "meta_key svc \<notin> meta_key ` set found"
  shows "service_key svc \<notin> service_key ` set found"
proof
  assume "service_key svc \<in> service_key ` set found"
  then obtain x where "service_key svc = service_key x" "x \<in> set found" by (rule imageE)
  with service_key_meta_key [of svc x] assms show False by (metis imageI)
qed

lemma listed_apart:
  assumes "meta_key svc \<notin> meta_key ` set found" "others_kept {service_key svc} V V1" "x \<in> set found"
  shows "meta_key x \<noteq> meta_key svc" "svcs V1 (service_key x) = svcs V (service_key x)"
proof -
  show key: "meta_key x \<noteq> meta_key svc" using assms(1,3) by (metis imageI)
  then have "service_key x \<noteq> service_key svc" using service_key_meta_key by blast
  then have "service_key x \<notin> {service_key svc}" by simp
  from others_keptD(1) [OF assms(2) this] show "svcs V1 (service_key x) = svcs V (service_key x)" .
qed

context app_server
begin

lemma AddFunc_kept:
  assumes "AddFunc K OC L Y C svc st w = (r, svc', st', w')" "Namespace svc \<noteq> ''''"
    and "clean (view w)" "svcs (view w) (service_key svc) = Some svc"
  shows "same_strategy st st'" "clean (view w')" "others_kept {service_key svc} (view w) (view w')"
proof -
  have "same_strategy st st' \<and> clean (view w') \<and> others_kept {service_key svc} (view w) (view w')"
  proof (cases "handled C svc")
    case True
    from AddFunc_exposes(1-3) [OF assms(1) True assms(2-4)] show ?thesis by blast
  next
    case False
    then have "st' = st" "w' = w" using assms(1) by (simp_all add: AddFunc_ignores)
    with assms(3) show ?thesis by simp
  qed
  then show "same_strategy st st'" "clean (view w')" "others_kept {service_key svc} (view w) (view w')" by blast+
qed

lemma deliver_new:
  assumes "in_store s (meta_key svc) = None" "deliver K OC L Y C svc s = (r, s1)"
  obtains svc' where "AddFunc K OC L Y C svc (in_strategy s) (in_world s) = (r, svc', in_strategy s1, in_world s1)"
    "in_store s1 = (in_store s)(meta_key svc \<mapsto> svc')"
  using assms by (auto simp: deliver_def split: prod.splits)

lemma processLoop_exposes:
  assumes "fifo_ok f" "entries f = map (\<lambda>svc. (meta_key svc, [Sync svc])) found" "distinct (map meta_key found)"
    and "\<forall>svc \<in> set found. Namespace svc \<noteq> '''' \<and> in_store s (meta_key svc) = None \<and>
      svcs (view (in_world s)) (service_key svc) = Some svc"
    and "clean (view (in_world s))" "processLoop K OC L Y C f s = (Ok (), f', s')"
  shows "same_strategy (in_strategy s) (in_strategy s') \<and>
    listing_handled L C (in_strategy s) found (refused K OC L Y C found s) (view (in_world s)) (view (in_world s'))"
  using assms
proof (induction found arbitrary: f s)
  case Nil
  then show ?case by (simp add: processLoop_waits listing_handled_def)
next
  case (Cons svc found)
  let ?V = "view (in_world s)" and ?V' = "view (in_world s')" and ?st = "in_strategy s"
  from Pop_first [OF Cons.prems(1)] Cons.prems(2) obtain f1 where
    f1: "Pop f = (Some [Sync svc], f1)" "fifo_ok f1" "entries f1 = map (\<lambda>svc. (meta_key svc, [Sync svc])) found" by auto
  obtain r s1 where d: "deliver K OC L Y C svc s = (r, s1)" by fastforce
  have svc: "Namespace svc \<noteq> ''''" "in_store s (meta_key svc) = None" "svcs ?V (service_key svc) = Some svc"
    using Cons.prems(4) by simp_all
  obtain svc' where add: "AddFunc K OC L Y C svc ?st (in_world s) = (r, svc', in_strategy s1, in_world s1)"
      and store: "in_store s1 = (in_store s)(meta_key svc \<mapsto> svc')"
    using svc(2) d by (rule deliver_new)
  let ?V1 = "view (in_world s1)" and ?bad = "refused K OC L Y C (svc # found) s"
  have loop: "processLoop K OC L Y C f1 s1 = (Ok (), f', s')"
    using Cons.prems(6) processLoop_pops [OF f1(1), of K OC L Y C s] d by (cases r) auto
  have fresh: "meta_key svc \<notin> meta_key ` set found" using Cons.prems(3) by simp
  note apart = meta_key_apart [OF fresh]
  have one: "same_strategy ?st (in_strategy s1)" "clean ?V1" "others_kept {service_key svc} ?V ?V1"
    using AddFunc_kept [OF add svc(1) Cons.prems(5) svc(3)] .
  have "\<forall>x \<in> set found. Namespace x \<noteq> '''' \<and> in_store s1 (meta_key x) = None \<and> svcs ?V1 (service_key x) = Some x"
    using Cons.prems(4) listed_apart [OF fresh one(3)] store by simp
  from Cons.IH [OF f1(2,3) _ this one(2) loop] Cons.prems(3)
  have IH: "same_strategy (in_strategy s1) (in_strategy s')"
    "listing_handled L C (in_strategy s1) found (refused K OC L Y C found s1) ?V1 ?V'" by simp_all
  have "listing_handled L C ?st found (refused K OC L Y C found s1) ?V1 ?V'"
    using IH(2) by (simp add: listing_handled_same [OF one(1)])
  moreover have "set (refused K OC L Y C found s1) \<subseteq> set ?bad" using d by simp
  moreover have "exposed_unless L ?st ?bad ?V ?V1 svc" if "handled C svc"
    using AddFunc_exposes(4) [OF add that svc(1) Cons.prems(5) svc(3)] that by (auto simp: exposed_unless_def)
  ultimately have "listing_handled L C ?st (svc # found) ?bad ?V ?V'"
  proof (cases "handled C svc")
    case False
    with add have "in_world s1 = in_world s" by (simp add: AddFunc_ignores)
    with False d \<open>listing_handled L C ?st found _ ?V1 ?V'\<close> show ?thesis by (simp add: listing_handled_skip)
  qed (rule listing_handled_Cons [OF _ apart _ _ one(3)])
  with same_strategy_trans [OF one(1) IH(1)] show ?case by blast
qed

end

text \<open>
  C2: exposure from end to end. Let the first listing hold services as they are stored. When the loop
  has worked off the queue without a panic, the store holds exactly the listed services, and for
  every listed service that is marked and on the white list, unless the strategy returned an error
  for it, the promise of the configured strategy holds between the cluster before and the cluster at
  the end. For a load balancer or a node port it is the type of the stored service and, once there is
  an address, its URL; for an ingress, that the first rule of the ingress of the service has gained a
  path to its chosen port and the service carries the URL, or had the path before and the service is
  unchanged; for a route, that the route of its name is as configured and the service carries the URL
  of that route, or is unchanged if the route has neither host nor path; for ambassador, that the
  service carries the computed configuration. Every other service, its route and the paths that lead
  to it in the first rules of the ingresses are as before.
\<close>

theorem first_listing_exposes:
  assumes "app_server K L view OC" "clean (view w)"
    and "\<forall>svc \<in> set found. Namespace svc \<noteq> '''' \<and> svcs (view w) (service_key svc) = Some svc"
    and "distinct (map meta_key found)"
    and "s = \<lparr>in_store = Map.empty, in_strategy = st, in_world = w\<rparr>"
    and "processLoop K OC L Y C (reflect Map.empty (Listing [] found) NewDeltaFIFO) s = (Ok (), f', s')"
  shows "same_strategy st (in_strategy s') \<and> dom (in_store s') = meta_key ` set found \<and>
    listing_handled L C st found (refused K OC L Y C found s) (view w) (view (in_world s'))"
proof -
  let ?f = "reflect Map.empty (Listing [] found) NewDeltaFIFO"
  have ok: "fifo_ok ?f" by (rule reflect_ok) simp
  have "\<not> willObjectBeDeleted NewDeltaFIFO k" "\<not> pending NewDeltaFIFO k" for k
    using no_entries [OF NewDeltaFIFO_ok, of k] by (simp_all add: willObjectBeDeleted_last pending_def)
  with processLoop_store [OF assms(6) ok] will_know_Replace [OF NewDeltaFIFO_ok(1), of "[]" Map.empty found] assms(5)
  have "dom (in_store s') = meta_key ` set found" by auto
  with app_server.processLoop_exposes [OF assms(1) ok first_listing [OF assms(4)] assms(4) _ _ assms(6)] assms(2,3,5)
  show ?thesis by simp
qed

text \<open>
  The example: of two listed services one is marked and on the white list; the load balancer strategy
  changes its type and leaves the other alone.
\<close>

theorem first_listing_exposes_witness:
  "\<exists>f' s'. processLoop ref_client ref_oclient ref_lib ref_yaml_lib example_controller
       (reflect Map.empty (Listing [] [marked_service, other_service]) NewDeltaFIFO)
       \<lparr>in_store = Map.empty, in_strategy = LoadBalancerStrategy, in_world = watch_state\<rparr> = (Ok (), f', s') \<and>
     dom (in_store s') = {''dev/web'', ''dev/api''} \<and>
     (\<exists>t. svcs (ref_view (in_world s')) (''dev'', ''web'') = Some t \<and> ServiceType t = ''LoadBalancer'') \<and>
     svcs (ref_view (in_world s')) (''dev'', ''api'') = Some other_service"
proof -
  let ?found = "[marked_service, other_service]"
  let ?s = "\<lparr>in_store = Map.empty, in_strategy = LoadBalancerStrategy, in_world = watch_state\<rparr>"
  let ?f = "reflect Map.empty (Listing [] ?found) NewDeltaFIFO"
  from marked_handled obtain w1 where add: "fst (strategy_Add ref_client ref_oclient ref_lib LoadBalancerStrategy marked_service watch_state) = Ok ()"
    and run: "AddFunc ref_client ref_oclient ref_lib ref_yaml_lib example_controller marked_service LoadBalancerStrategy watch_state =
       (Ok (), marked_service, LoadBalancerStrategy, w1)" by auto
  have key: "meta_key marked_service = ''dev/web''" "meta_key other_service = ''dev/api''"
    by (simp_all add: meta_key_def watched_names)
  have other: "\<not> handled example_controller other_service"
    by (simp add: handled_def isServiceWhitelisted_def example_controller_def watched_names)
  have mine: "handled example_controller marked_service"
    by (simp add: handled_def isServiceWhitelisted_def example_controller_def watched_names exposed_by_mark_def)
      (simp add: marked_service_def)
  have d: "distinct (map meta_key ?found)" by (simp add: key)
  have ok: "fifo_ok ?f" by (rule reflect_ok) simp
  from Pop_first [OF ok] first_listing [OF d] obtain f1 where f1: "Pop ?f = (Some [Sync marked_service], f1)" "fifo_ok f1"
    "entries f1 = [(meta_key other_service, [Sync other_service])]" by (auto simp del: reflect.simps)
  from Pop_first [OF f1(2,3)] obtain f2 where f2: "Pop f1 = (Some [Sync other_service], f2)" "entries f2 = []" by blast
  obtain s1 where s1: "deliver ref_client ref_oclient ref_lib ref_yaml_lib example_controller marked_service ?s = (Ok (), s1)"
    "in_store s1 = [''dev/web'' \<mapsto> marked_service]" using run by (simp add: deliver_def key)
  obtain s2 where s2: "deliver ref_client ref_oclient ref_lib ref_yaml_lib example_controller other_service s1 = (Ok (), s2)"
    by (simp add: deliver_def key s1(2) AddFunc_ignores [OF other])
  have loop: "processLoop ref_client ref_oclient ref_lib ref_yaml_lib example_controller ?f ?s = (Ok (), f2, s2)"
    using processLoop_pops [OF f1(1), of ref_client ref_oclient ref_lib ref_yaml_lib example_controller ?s]
      processLoop_pops [OF f2(1), of ref_client ref_oclient ref_lib ref_yaml_lib example_controller s1]
      s1(1) s2 processLoop_waits [OF f2(2)] by (simp del: reflect.simps)
  have stored: "\<forall>svc \<in> set ?found. Namespace svc \<noteq> '''' \<and> svcs (ref_view watch_state) (service_key svc) = Some svc"
    by (simp add: ref_view_def watch_state_def watched_names)
  have clean: "clean (ref_view watch_state)"
    using watch_state_tidy by (simp add: clean_def ingresses_keyed_def ref_view_def watch_state_def lb_state_def)
  have "refused ref_client ref_oclient ref_lib ref_yaml_lib example_controller ?found ?s = []" using add other by simp
  with first_listing_exposes [OF ref.app_server_axioms clean stored d refl loop]
  have dom: "dom (in_store s2) = meta_key ` set ?found"
    and all: "listing_handled ref_lib example_controller LoadBalancerStrategy ?found [] (ref_view watch_state) (ref_view (in_world s2))"
    by simp_all
  from all mine have "\<exists>t. svcs (ref_view (in_world s2)) (''dev'', ''web'') = Some t \<and> ServiceType t = ''LoadBalancer''"
    by (auto simp: listing_handled_def exposed_unless_def watched_names strategy_exposed_def LoadBalancer_exposed_def)
  moreover have "svcs (ref_view (in_world s2)) (''dev'', ''api'') = Some other_service"
  proof -
    from all mine other have kept: "others_kept {service_key marked_service} (ref_view watch_state) (ref_view (in_world s2))"
      by (simp add: listing_handled_def)
    have "service_key other_service \<notin> {service_key marked_service}" by (simp add: watched_names)
    from others_keptD(1) [OF kept this] stored show ?thesis by (simp add: watched_names)
  qed
  ultimately show ?thesis using loop dom by (auto simp: key simp del: reflect.simps)
qed

end
