(* ===== verification/Spec2Isabelle.thy ===== *)
theory Spec2Isabelle
  imports Lifecycle Exposure
begin

text \<open>
  A verification development for exposecontroller, the program that makes Kubernetes and OpenShift
  services reachable from outside and tells ConfigMaps and OAuth clients their URLs.

  \<^bold>\<open>The program.\<close> \<^verbatim>\<open>exposecontroller.go\<close> (main) makes a client, finds a configuration in a file or in
  ConfigMaps, applies the flags, and either removes generated ingresses or creates a controller and
  runs it, as a daemon or once. \<^verbatim>\<open>controller/controller.go\<close> watches services through an informer; for
  every marked and white-listed service it calls the expose strategy and then fills the service's own
  ConfigMap, its OAuth client and the ConfigMaps that ask for its URL. \<^verbatim>\<open>controller/deployments.go\<close>
  restarts deployments whose ConfigMap changed; \<^verbatim>\<open>controller/config.go\<close> holds the configuration.
  \<^verbatim>\<open>exposestrategy/\<close> holds the strategies behind one interface: load balancer, node port, ingress,
  ambassador, route, and the automatic choice between them.

  \<^bold>\<open>The model.\<close> Go structs are records, a nil map is \<open>None\<close>, a call returns \<open>Ok\<close>, \<open>Err\<close> or
  \<open>Panic\<close> (theory Prelude), 32-bit ports are words. Everything that changes is passed explicitly:
  the server state, the strategy (which the ambassador strategy assigns to), the service object when a
  call mutates it. The API server is not part of the program: the clients are records of functions
  over an unknown server state, arguments of every definition that calls them, and what the server
  documents are the laws of the locales \<open>kube_server\<close>, \<open>atomic_server\<close>, \<open>openshift_server\<close>,
  \<open>app_server\<close> and \<open>listing_server\<close>, each interpreted on a reference server over association
  lists. Other library code is collected in the parameter records \<open>golib\<close> (encoder, merge patch,
  JSON root paths, template and format fragments not modelled, map iteration order), \<open>yaml_lib\<close>
  and \<open>host_env\<close> (HTTP, environment).

  \<^bold>\<open>Theories.\<close>
  \<^item> Prelude, GoStrings, GoUrl: the run-time, \<^verbatim>\<open>strings\<close>, \<^verbatim>\<open>strconv\<close>, \<^verbatim>\<open>net\<close> and \<^verbatim>\<open>net/url\<close> as far as used.
  \<^item> KubeApi, KubeServer, OpenShiftServer, AppServer: objects, clients, server laws, reference server.
  \<^item> Utils: \<^verbatim>\<open>exposestrategy/utils.go\<close>. Annotations round-trip, patches reach exactly one service.
  \<^item> ExposeStrategy: the interface as a locale. LoadBalancer, NodePort, Ingress, Ambassador, Route,
    AutoDetect, Strategy: the files of the same names (\<^verbatim>\<open>auto.go\<close>, \<^verbatim>\<open>strategy.go\<close> for the last two). The effect
    of each \<^verbatim>\<open>Add\<close> and \<^verbatim>\<open>Remove\<close> on the whole cluster, that other services are untouched, that a strategy
    is only made for a cluster it fits, and the cases in which a call fails or loses something.
  \<^item> Config: \<^verbatim>\<open>config.go\<close>. Deployments: \<^verbatim>\<open>deployments.go\<close>; the token of a ConfigMap and where it is written.
  \<^item> ConfigMaps: \<^verbatim>\<open>updateServiceConfigMap\<close>, \<^verbatim>\<open>updateOtherConfigMaps\<close>, \<^verbatim>\<open>UpdateConfigMap\<close>; what is written under which
    key, and which ConfigMaps may change.
  \<^item> Controller: the rest of \<^verbatim>\<open>controller.go\<close>. Confinement: everything done for a service stays within its
    namespace and its OAuth client, and the related resources are updated without touching services,
    ingresses and routes (\<open>same_exposure\<close>). Handlers: which event leads to what, \<^verbatim>\<open>NewController\<close>, and that
    handling settles under the load balancer, ingress and node port strategies, so that a resync
    writes nothing. The ambassador strategy, and the route strategy for a route it generated, write on
    every call.
  \<^item> DeltaFifo: the queue between reflector and loop (\<^verbatim>\<open>DeltaFIFO\<close>, vendored), with the operations the
    informer uses. Every action of the reflector keeps the queue well formed and amounts to joining
    changes to a list of entries (locale \<open>delta_queue\<close>); which services the informer will know
    after a listing.
  \<^item> Informer: the loop that calls the handlers (\<^verbatim>\<open>framework.NewInformer\<close>), as the function
    \<open>processLoop\<close> over that queue and as a step relation \<open>system_step\<close> over its entries; the
    store after a new listing, invariant, refinement of the machine \<open>abs_step\<close> through the locale
    \<open>step_refinement\<close>, and that any queue is drained.
  \<^item> Exposure: the composition. Once the loop has worked off the first listing, the promise of the
    strategy (\<open>strategy_exposed\<close>, from the locale of the interface) holds for every marked and
    white-listed service between the first cluster and the last, unless the strategy returned an error
    for it; all other services, their routes and the paths that lead to them in the first rules of
    ingresses are unchanged.
  \<^item> ExposeController: \<^verbatim>\<open>main\<close> up to the running controller, and its endpoints. Lifecycle: its goroutines,
    queue and channels as the step relation \<open>run_step\<close>, which refines \<open>system_step\<close>; its
    invariant; a one-shot run that ends by itself has handled every listed service, can always end,
    and can crash by closing a channel twice; a daemon cannot.
  \<^item> This theory: the whole program keeps within the namespace and the services it was given.

  \<^bold>\<open>Termination and bounds.\<close> Every definition is total; no fuel is used. \<^verbatim>\<open>New\<close> and \<^verbatim>\<open>NewAutoStrategy\<close> call
  each other and terminate because the detected name is not empty; the client loop makes at most 31
  tries; \<open>processLoop\<close> ends where the code waits for the next change, and every round takes a key
  from the queue; the endless loops of the running program are step relations.

  \<^bold>\<open>Assumptions worth knowing.\<close> A refused write has changed nothing (\<open>atomic_server\<close>), objects are
  stored under the namespace and name they carry (\<open>tidy\<close>, \<open>ingresses_keyed\<close>), nobody else writes to the cluster while
  a step of the program runs. A panic of a handler is recovered by the client library and the entry it
  worked on is dropped, as its loop does. The OpenShift client that \<^verbatim>\<open>New\<close> makes for the route strategy,
  dropping the error of its constructor, is taken to be usable. A listing names every service once.
  Objects in the queue are values: when two changes of one entry share the stored object (two resyncs
  before the loop gets to it), the second is given the value from before the first was handled.

  \<^bold>\<open>Not modelled.\<close> Logging and the event recorder; what the profiling handlers answer (standard
  library; which paths are registered and that a failure of their server ends the process is
  modelled); \<^verbatim>\<open>version/info.go\<close> (values set by the linker); command-line parsing; the requests of the
  reflector and their timing (listings, events and resyncs may come in any order after the first
  listing); the compressor, requeueing and read operations of \<^verbatim>\<open>DeltaFIFO\<close>, which the program does
  not use; texts of errors inside errors printed with \<^verbatim>\<open>%v\<close>; other vendored code.
\<close>

section \<open>The whole program\<close>

text \<open>Starting to watch sends no write, and fixes the namespace and the white list.\<close>

lemma main_Watching:
  assumes "main K L Y H F S w = (Ok (Watching daemon ns C st), w')"
  shows "w' = w \<and> daemon = fl_daemon F \<and>
    (\<exists>currentNamespace config. loaded_config K Y F S currentNamespace w = Ok config \<and>
       watched_namespace config currentNamespace = Ok ns \<and> NewController K L H config w = Ok (C, st))"
  using assms
  by (auto simp: main_def outcome_bind_iffs split: outcome.splits prod.splits if_splits)

lemma NewController_Services: "NewController K L H config w = Ok (C, st) \<Longrightarrow> Services (ct_config C) = Services config"
  by (auto simp: NewController_def authorizeURL_setup_def Let_def split: outcome.splits prod.splits if_splits)

lemma loaded_config_override: "loaded_config K Y F S cur w = Ok config \<Longrightarrow> \<exists>c. config = override F c"
  by (auto simp: loaded_config_def outcome_bind_eq_Ok split: option.splits)

lemma override_namespace:
  "fl_watchNamespaces F \<noteq> '''' \<Longrightarrow> watched_namespace (override F c) cur = Ok ns \<Longrightarrow> ns = fl_watchNamespaces F"
  by (simp add: watched_namespace_def override_watch)

text \<open>
  C1: the whole program keeps within what it was told. When it is started with a namespace and a list
  of service names on its command line, in either mode, then whatever the file and the ConfigMaps
  say, whatever the cluster sends and however the calls end, it never changes a service outside that
  namespace or not on that list, nor an ingress, ConfigMap, deployment or route outside the
  namespace, nor an OAuth client of another name.
\<close>

theorem program_confined:
  assumes "app_server K L view OC" "tidy (view w)"
    and "main K L Y H F S w = (Ok (Watching daemon ns C st), w1)"
    and "(run_step K OC L Y C ns)\<^sup>*\<^sup>* (launch daemon st w1) s"
    and "fl_watchNamespaces F \<noteq> ''''" "fl_services F \<noteq> ''''"
  shows "\<forall>m n. (if m \<noteq> fl_watchNamespaces F \<or> n \<notin> set (Split (fl_services F) CHR '','')
            then svcs (view (in_world s)) (m, n) = svcs (view w) (m, n) else True) \<and>
     (if m \<noteq> fl_watchNamespaces F
      then ings (view (in_world s)) (m, n) = ings (view w) (m, n) \<and> cmaps (view (in_world s)) (m, n) = cmaps (view w) (m, n) \<and>
        deps (view (in_world s)) (m, n) = deps (view w) (m, n) \<and> rts (view (in_world s)) (m, n) = rts (view w) (m, n)
      else True) \<and>
     (if n \<notin> set (Split (fl_services F) CHR '','') then oauths (view (in_world s)) n = oauths (view w) n else True)"
proof -
  from main_Watching [OF assms(3)] obtain cur config where w1: "w1 = w"
    and cfg: "loaded_config K Y F S cur w = Ok config" "watched_namespace config cur = Ok ns" "NewController K L H config w = Ok (C, st)"
    by blast
  obtain c where c: "config = override F c" using loaded_config_override [OF cfg(1)] by blast
  have ns: "ns = fl_watchNamespaces F" using override_namespace [OF assms(5)] cfg(2) c by simp
  have "Services (ct_config C) = Split (fl_services F) CHR '',''"
    using NewController_Services [OF cfg(3)] assms(6) by (simp add: c override_watch)
  then have white: "isServiceWhitelisted n (ct_config C) \<longleftrightarrow> n \<in> set (Split (fl_services F) CHR '','')" for n
    by (simp add: isServiceWhitelisted_def)
  from launched_informer [OF assms(4)] w1 have "(system_step K OC L Y C ns)\<^sup>*\<^sup>* (start st w) (system_of s)" by simp
  from app_server.system_run_refines [OF assms(1) this] assms(2)
  have "(abs_step (ct_config C) ns)\<^sup>*\<^sup>* (view w) (view (in_world s))" by simp
  from abs_run_untouched [OF this] show ?thesis
    using assms(5) ns white unfolding untouched_def by auto
qed

definition example_flags :: flags where
  "example_flags = default_flags\<lparr>fl_exposer := ''LoadBalancer'', fl_watchNamespaces := ''dev'', fl_services := ''web''\<rparr>"

lemma example_main:
  "\<exists>C. main ref_client ref_lib ref_yaml_lib example_host example_flags (example_surroundings (Inl NotExist)) watch_state =
     (Ok (Watching False ''dev'' C LoadBalancerStrategy), watch_state)"
proof -
  have none: "tryFindConfig ref_client ref_yaml_lib ns watch_state = Ok None" for ns
    by (simp add: tryFindConfig_def ref_client_def ref_get_def lb_state_def watch_state_def)
  then have "findTeamConfig ref_client ref_yaml_lib ns watch_state = Ok None" for ns
    by (simp add: findTeamConfig_def ref_client_def split: option.splits)
  moreover have "Load ref_yaml_lib '''' = Ok DefaultConfig"
    by (simp add: Load_def unmarshal_pointer_def ref_yaml_lib_def DefaultConfig_def)
  ultimately have cfg: "loaded_config ref_client ref_yaml_lib example_flags (example_surroundings (Inl NotExist)) ''dev'' watch_state =
      Ok (override example_flags DefaultConfig)"
    by (simp add: loaded_config_def example_surroundings_def findConfig_def LoadFile_cases none)
  have exposer: "Exposer (override example_flags DefaultConfig) = ''LoadBalancer''"
    by (simp add: override_def example_flags_def default_flags_def Let_def)
  have "ToLower ''LoadBalancer'' = ''loadbalancer''" by code_simp
  then have "New ref_client ref_lib ''LoadBalancer'' d a watch_state = Ok LoadBalancerStrategy" for d a
    by (simp add: New.simps NewLoadBalancerStrategy_def del: ToLower.simps)
  then have "\<exists>C. NewController ref_client ref_lib example_host (override example_flags DefaultConfig) watch_state =
      Ok (C, LoadBalancerStrategy)"
    by (simp add: NewController_def exposer split: prod.splits)
  moreover have "watched_namespace (override example_flags DefaultConfig) ''dev'' = Ok ''dev''"
    by (simp add: watched_namespace_def override_def example_flags_def default_flags_def Let_def)
  moreover have "current_namespace example_host (example_surroundings (Inl NotExist)) = Ok ''dev''"
    by (simp add: current_namespace_def example_host_def example_surroundings_def)
  ultimately show ?thesis using cfg by (auto simp: main_def example_flags_def default_flags_def)
qed

theorem program_confined_witness:
  "\<exists>C s. main ref_client ref_lib ref_yaml_lib example_host example_flags (example_surroundings (Inl NotExist)) watch_state =
       (Ok (Watching False ''dev'' C LoadBalancerStrategy), watch_state) \<and>
     run_step ref_client ref_oclient ref_lib ref_yaml_lib C ''dev'' (launch False LoadBalancerStrategy watch_state) s \<and>
     svcs (ref_view (in_world s)) (''dev'', ''api'') = Some other_service"
proof -
  from example_main obtain C where main: "main ref_client ref_lib ref_yaml_lib example_host example_flags
      (example_surroundings (Inl NotExist)) watch_state = (Ok (Watching False ''dev'' C LoadBalancerStrategy), watch_state)" by blast
  let ?l = "launch False LoadBalancerStrategy watch_state"
  have step: "run_step ref_client ref_oclient ref_lib ref_yaml_lib C ''dev'' ?l (list_none ?l)"
    by (rule list_none_step) (simp_all add: launch_def NewDeltaFIFO_def)
  then have run: "(run_step ref_client ref_oclient ref_lib ref_yaml_lib C ''dev'')\<^sup>*\<^sup>* ?l (list_none ?l)"
    by (rule r_into_rtranclp)
  have flags: "fl_watchNamespaces example_flags = ''dev''" "fl_services example_flags = ''web''"
    by (simp_all add: example_flags_def)
  have "svcs (ref_view (in_world (list_none ?l))) (''dev'', ''api'') = svcs (ref_view watch_state) (''dev'', ''api'')"
    using program_confined [OF ref.app_server_axioms watch_state_tidy main run] flags by simp
  then have "svcs (ref_view (in_world (list_none ?l))) (''dev'', ''api'') = Some other_service"
    by (simp add: ref_view_def watch_state_def)
  with main step show ?thesis by blast
qed

end
